theory Spec2Isabelle
  imports Complex_Main "HOL-Library.AList" "HOL-Library.Log_Nat"
begin

section \<open>JavaScript values\<close>

text \<open>
  The values that flow between the query engine, the rows and the model attributes.
  The number type is a parameter: the ORM core handles integer keys (\<open>int jsval\<close>),
  the casts of CustomCasts.ts handle floating-point amounts (\<open>number jsval\<close>, see the
  section on them).
  \<open>JDate t\<close> is a \<^verbatim>\<open>Date\<close> object with time value \<open>t\<close>.
\<close>

datatype 'n jsval =
    JUndefined
  | JNull
  | JBool bool
  | JNum 'n
  | JStr string
  | JDate int
  | JArr "'n jsval list"
  | JObj "(string \<times> 'n jsval) list"

type_synonym val = "int jsval"
type_synonym row = "(string \<times> val) list"

text \<open>\<^verbatim>\<open>Boolean(v)\<close>, \<^verbatim>\<open>!v\<close>, \<^verbatim>\<open>v ? a : b\<close>: every object (dates, arrays, plain objects) is truthy.\<close>

fun truthy :: "'n::zero jsval \<Rightarrow> bool" where
  "truthy JUndefined = False"
| "truthy JNull = False"
| "truthy (JBool b) = b"
| "truthy (JNum n) = (n \<noteq> 0)"
| "truthy (JStr s) = (s \<noteq> [])"
| "truthy (JDate t) = True"
| "truthy (JArr xs) = True"
| "truthy (JObj kvs) = True"

text \<open>Reading a property of a plain object: \<^verbatim>\<open>obj[k]\<close> is \<^verbatim>\<open>undefined\<close> when the key is absent.
  Writing is \<open>AList.update\<close> (an existing key keeps its place, a new one goes last).\<close>

definition property :: "(string \<times> 'n jsval) list \<Rightarrow> string \<Rightarrow> 'n jsval" where
  "property obj k = (case map_of obj k of None \<Rightarrow> JUndefined | Some v \<Rightarrow> v)"

text \<open>Decimal rendering of integers, for \<^verbatim>\<open>String(n)\<close> when a number is used as a property key.\<close>

fun digits :: "nat \<Rightarrow> string" where
  "digits n = (if n < 10 then [''0123456789'' ! n]
               else digits (n div 10) @ [''0123456789'' ! (n mod 10)])"

declare digits.simps [simp del]

definition show_int :: "int \<Rightarrow> string" where
  "show_int i = (if i < 0 then CHR ''-'' # digits (nat (- i)) else digits (nat i))"

section \<open>The query engine\<close>

text \<open>
  The engine (Knex in the source) is an external collaborator. It is modelled as an
  in-memory store: a table is a list of rows, a query is a table name and a conjunction
  of predicates, and every call is appended to a log. Only the predicates that the
  modelled methods build are represented.
\<close>

datatype pred =
    Where string val
  | WhereIn string "val list"
  | WhereNull string
  | WhereNotNull string

record knex =
  from_table :: string
  wheres :: "pred list"

datatype op =
    Select knex
  | First knex
  | Insert string row
  | InsertReturning string row string
  | Update knex row
  | Delete knex

datatype error =
    EngineError op
  | RelationNotFound string
  | ModelNotFound string
  | InvalidRelatedClass string
  | MorphModelNotFound string
  | ModelNotFoundWithId val
  | TypeError

text \<open>A call either returns or throws; the state it has reached is kept in both cases.\<close>

datatype 'a outcome = Returned 'a | Threw error

text \<open>SQL reads an absent column and a stored \<^verbatim>\<open>undefined\<close> as NULL.\<close>

definition column :: "row \<Rightarrow> string \<Rightarrow> val" where
  "column r c = (case map_of r c of None \<Rightarrow> JNull | Some JUndefined \<Rightarrow> JNull | Some v \<Rightarrow> v)"

fun holds :: "row \<Rightarrow> pred \<Rightarrow> bool" where
  "holds r (Where c v) = (column r c \<noteq> JNull \<and> column r c = v)"
| "holds r (WhereIn c vs) = (column r c \<noteq> JNull \<and> column r c \<in> set vs)"
| "holds r (WhereNull c) = (column r c = JNull)"
| "holds r (WhereNotNull c) = (column r c \<noteq> JNull)"

definition matches :: "knex \<Rightarrow> row \<Rightarrow> bool" where
  "matches q r = list_all (holds r) (wheres q)"

section \<open>Model instances and model classes\<close>

text \<open>
  The instance state of the JavaScript \<^verbatim>\<open>Model\<close> (Model.js): \<open>p_dirty\<close> is the
  \<^verbatim>\<open>_dirty\<close> set in insertion order, \<open>p_deferred\<close> is \<^verbatim>\<open>_deferred\<close>
  (\<open>None\<close> for \<^verbatim>\<open>undefined\<close> and \<^verbatim>\<open>null\<close>). The loaded relations are kept beside
  the state, in \<open>entity\<close>.
\<close>

record model =
  attributes :: row
  original :: row
  exists :: bool
  wasRecentlyCreated :: bool
  p_dirty :: "string list"
  p_deferred :: "row option"

datatype entity = Entity (state: model) (relations: "(string \<times> related) list")
  and related = RNull | ROne entity | RMany "entity list"

datatype relation_kind = HasOne | HasMany | BelongsTo | BelongsToMany | HasManyThrough | MorphTo | MorphMany

text \<open>\<open>RelatedName n\<close> is a deferred reference by name; \<open>RelatedModelBase\<close> is the base
  class \<^verbatim>\<open>Model\<close> itself, which \<^verbatim>\<open>MorphTo\<close> passes to the \<^verbatim>\<open>Relation\<close> constructor.\<close>

datatype related_ref = RelatedName string | RelatedModelBase

record relation =
  kind :: relation_kind
  related :: related_ref
  foreignKey :: string
  localKey :: string

text \<open>
  An event handler receives the model and returns a value. What it does to the model is
  a list of attribute assignments (\<^verbatim>\<open>user.email = ...\<close>), applied through
  \<^verbatim>\<open>setAttribute\<close>; what it does outside the model is not modelled.
  Global scopes and eager-load constraints are callbacks on a builder; they are modelled
  by the predicates they add.
\<close>

type_synonym handler = "model \<Rightarrow> val \<times> (string \<times> val) list"

record model_class =
  className :: string
  static_table :: "string option"
  primaryKey :: string
  keyType :: string
  incrementing :: bool
  timestamps :: bool
  softDeletes :: bool
  casts :: "(string \<times> string) list"
  events :: "(string \<times> handler list) list"
  globalScopes :: "(string \<times> pred list) list"
  timezone :: string
  relationMethods :: "(string \<times> relation) list"

text \<open>Built-ins of the platform that the models call: their results are parameters.\<close>

record platform =
  JSON_parse :: "val \<Rightarrow> val option"
  JSON_stringify :: "val \<Rightarrow> val"
  moment_format :: "string \<Rightarrow> val \<Rightarrow> val option"
  format_local :: "int \<Rightarrow> string"
  ObjectToString :: "val \<Rightarrow> string"
  clock :: int
  zoned :: "string \<Rightarrow> int \<Rightarrow> int"
  config_timezone :: "string option"
  random_uuid :: string

text \<open>
  The world outside a call: the tables, the log of engine calls, the calls on which the
  engine throws, the handlers that have run (by event name), the Type Registry and the
  platform.
\<close>

record world =
  tables :: "(string \<times> row list) list"
  log :: "op list"
  failing :: "op \<Rightarrow> bool"
  fired :: "string list"
  registry :: "(string \<times> model_class) list"
  sys :: platform

definition rows_of :: "world \<Rightarrow> string \<Rightarrow> row list" where
  "rows_of w t = (case map_of (tables w) t of None \<Rightarrow> [] | Some rs \<Rightarrow> rs)"

definition issue :: "op \<Rightarrow> world \<Rightarrow> world" where
  "issue c w = w\<lparr>log := log w @ [c]\<rparr>"

definition engine_select :: "knex \<Rightarrow> world \<Rightarrow> row list outcome \<times> world" where
  "engine_select q w =
     (if failing w (Select q) then (Threw (EngineError (Select q)), issue (Select q) w)
      else (Returned (filter (matches q) (rows_of w (from_table q))), issue (Select q) w))"

definition engine_first :: "knex \<Rightarrow> world \<Rightarrow> row option outcome \<times> world" where
  "engine_first q w =
     (if failing w (First q) then (Threw (EngineError (First q)), issue (First q) w)
      else (Returned (case filter (matches q) (rows_of w (from_table q)) of
                        [] \<Rightarrow> None | r # rs \<Rightarrow> Some r), issue (First q) w))"

definition engine_insert :: "string \<Rightarrow> row \<Rightarrow> world \<Rightarrow> unit outcome \<times> world" where
  "engine_insert t r w =
     (if failing w (Insert t r) then (Threw (EngineError (Insert t r)), issue (Insert t r) w)
      else (Returned (),
            issue (Insert t r) (w\<lparr>tables := AList.update t (rows_of w t @ [r]) (tables w)\<rparr>)))"

text \<open>Auto-increment: a row that brings no key gets the successor of the largest
  integer key of the table; the call returns the list of the keys of the new rows.\<close>

definition next_key :: "row list \<Rightarrow> string \<Rightarrow> val" where
  "next_key rs pk =
     JNum (fold (\<lambda>r m. case column r pk of JNum i \<Rightarrow> max i m | _ \<Rightarrow> m) rs 0 + 1)"

definition engine_insert_returning :: "string \<Rightarrow> row \<Rightarrow> string \<Rightarrow> world \<Rightarrow> val list outcome \<times> world" where
  "engine_insert_returning t r pk w =
     (if failing w (InsertReturning t r pk)
      then (Threw (EngineError (InsertReturning t r pk)), issue (InsertReturning t r pk) w)
      else (let key = (if column r pk \<noteq> JNull then column r pk else next_key (rows_of w t) pk)
            in (Returned [key],
                issue (InsertReturning t r pk)
                  (w\<lparr>tables := AList.update t (rows_of w t @ [AList.update pk key r]) (tables w)\<rparr>))))"

definition merge_row :: "row \<Rightarrow> row \<Rightarrow> row" where
  "merge_row changes r = fold (\<lambda>(c, v). AList.update c v) changes r"

definition engine_update :: "knex \<Rightarrow> row \<Rightarrow> world \<Rightarrow> nat outcome \<times> world" where
  "engine_update q changes w =
     (if failing w (Update q changes)
      then (Threw (EngineError (Update q changes)), issue (Update q changes) w)
      else (Returned (length (filter (matches q) (rows_of w (from_table q)))),
            issue (Update q changes)
              (w\<lparr>tables := AList.update (from_table q)
                   (map (\<lambda>r. if matches q r then merge_row changes r else r) (rows_of w (from_table q)))
                   (tables w)\<rparr>)))"

definition engine_delete :: "knex \<Rightarrow> world \<Rightarrow> nat outcome \<times> world" where
  "engine_delete q w =
     (if failing w (Delete q) then (Threw (EngineError (Delete q)), issue (Delete q) w)
      else (Returned (length (filter (matches q) (rows_of w (from_table q)))),
            issue (Delete q)
              (w\<lparr>tables := AList.update (from_table q)
                   (filter (\<lambda>r. \<not> matches q r) (rows_of w (from_table q))) (tables w)\<rparr>)))"

section \<open>Model.js: attributes and dirty tracking\<close>

definition toLowerCase :: "string \<Rightarrow> string" where
  "toLowerCase s = map (\<lambda>c. if 65 \<le> (of_char c :: nat) \<and> (of_char c :: nat) \<le> 90
                              then char_of ((of_char c :: nat) + 32) else c) s"

definition getTableName :: "model_class \<Rightarrow> string" where
  "getTableName C = (case static_table C of
                       Some t \<Rightarrow> if t \<noteq> [] then t else toLowerCase (className C) @ ''s''
                     | None \<Rightarrow> toLowerCase (className C) @ ''s'')"

definition Model_base :: model_class where
  "Model_base = \<lparr> className = ''Model'', static_table = None, primaryKey = ''id'',
      keyType = ''int'', incrementing = True, timestamps = True, softDeletes = False,
      casts = [], events = [], globalScopes = [], timezone = ''UTC'', relationMethods = [] \<rparr>"

definition new_Model :: "row \<Rightarrow> model" where
  "new_Model attrs = \<lparr> attributes = [], original = [], exists = False,
      wasRecentlyCreated = False, p_dirty = [],
      p_deferred = (if attrs = [] then None else Some attrs) \<rparr>"

definition timezone_of :: "model_class \<Rightarrow> world \<Rightarrow> string" where
  "timezone_of C w =
     (if timezone C \<noteq> [] then timezone C
      else case config_timezone (sys w) of
             Some z \<Rightarrow> if z \<noteq> [] then z else ''UTC''
           | None \<Rightarrow> ''UTC'')"

definition Model_getAttribute :: "model_class \<Rightarrow> world \<Rightarrow> model \<Rightarrow> string \<Rightarrow> val" where
  "Model_getAttribute C w m k =
     (let v = property (attributes m) k; cast = map_of (casts C) k in
      if cast = Some ''json'' \<or> cast = Some ''array''
      then (case JSON_parse (sys w) v of Some p \<Rightarrow> p | None \<Rightarrow> v)
      else if cast = Some ''date'' \<and> v \<noteq> JNull \<and> v \<noteq> JUndefined
      then (case moment_format (sys w) (timezone_of C w) v of Some s \<Rightarrow> s | None \<Rightarrow> v)
      else v)"

definition Model_setAttribute :: "model_class \<Rightarrow> world \<Rightarrow> string \<Rightarrow> val \<Rightarrow> model \<Rightarrow> model" where
  "Model_setAttribute C w k v m =
     (let cast = map_of (casts C) k;
          v1 = (if cast = Some ''json'' \<or> cast = Some ''array''
                then (case v of JStr s \<Rightarrow> v | _ \<Rightarrow> JSON_stringify (sys w) v)
                else v);
          v2 = (if cast = Some ''date''
                then (case v of JDate t \<Rightarrow> JStr (format_local (sys w) t) | _ \<Rightarrow> v1)
                else v1)
      in m\<lparr> attributes := AList.update k v2 (attributes m),
             p_dirty := (if p_deferred m = None \<and> exists m
                         then (if k \<in> set (p_dirty m) then p_dirty m else p_dirty m @ [k])
                         else p_dirty m) \<rparr>)"

definition syncOriginal :: "model \<Rightarrow> model" where
  "syncOriginal m = m\<lparr> original := attributes m, p_dirty := [] \<rparr>"

definition Model_initialize :: "model_class \<Rightarrow> world \<Rightarrow> model \<Rightarrow> model" where
  "Model_initialize C w m =
     (case p_deferred m of
        None \<Rightarrow> m
      | Some d \<Rightarrow> (syncOriginal (fold (\<lambda>(k, v). Model_setAttribute C w k v) d m))\<lparr> p_deferred := None \<rparr>)"

definition isDirty :: "model \<Rightarrow> bool" where
  "isDirty m = (p_dirty m \<noteq> [])"

definition getDirty :: "model \<Rightarrow> row" where
  "getDirty m = map (\<lambda>k. (k, property (attributes m) k)) (p_dirty m)"

definition getKey :: "model_class \<Rightarrow> model \<Rightarrow> val" where
  "getKey C m = property (attributes m) (primaryKey C)"

section \<open>QueryBuilder.js\<close>

record builder =
  query :: knex
  modelClass :: "model_class option"
  eagerLoad :: "string list"
  eagerLoadConstraints :: "(string \<times> pred list) list"
  p_includeTrashed :: bool
  p_onlyTrashed :: bool

definition new_QueryBuilder :: "string \<Rightarrow> model_class option \<Rightarrow> builder" where
  "new_QueryBuilder t mc = \<lparr> query = \<lparr> from_table = t, wheres = [] \<rparr>, modelClass = mc,
      eagerLoad = [], eagerLoadConstraints = [], p_includeTrashed = False, p_onlyTrashed = False \<rparr>"

definition add_where :: "pred \<Rightarrow> knex \<Rightarrow> knex" where
  "add_where p q = q\<lparr> wheres := wheres q @ [p] \<rparr>"

definition QueryBuilder_where :: "string \<Rightarrow> val \<Rightarrow> builder \<Rightarrow> builder" where
  "QueryBuilder_where c v b = b\<lparr> query := add_where (Where c v) (query b) \<rparr>"

definition QueryBuilder_whereIn :: "string \<Rightarrow> val list \<Rightarrow> builder \<Rightarrow> builder" where
  "QueryBuilder_whereIn c vs b = b\<lparr> query := add_where (WhereIn c vs) (query b) \<rparr>"

definition QueryBuilder_with :: "string list \<Rightarrow> builder \<Rightarrow> builder" where
  "QueryBuilder_with rels b = b\<lparr> eagerLoad := eagerLoad b @ rels \<rparr>"

definition withTrashed :: "builder \<Rightarrow> builder" where
  "withTrashed b = b\<lparr> p_includeTrashed := True \<rparr>"

definition onlyTrashed :: "builder \<Rightarrow> builder" where
  "onlyTrashed b = b\<lparr> p_onlyTrashed := True \<rparr>"

definition softDeleteFilter :: "builder \<Rightarrow> knex \<Rightarrow> knex" where
  "softDeleteFilter b q =
     (case modelClass b of
        None \<Rightarrow> q
      | Some C \<Rightarrow>
          if softDeletes C
          then (if p_onlyTrashed b then add_where (WhereNotNull ''deleted_at'') q
                else if \<not> p_includeTrashed b then add_where (WhereNull ''deleted_at'') q
                else q)
          else q)"

definition hydrate :: "model_class \<Rightarrow> world \<Rightarrow> row \<Rightarrow> entity" where
  "hydrate C w r = Entity (Model_initialize C w ((new_Model r)\<lparr> exists := True \<rparr>)) []"

definition ToString :: "world \<Rightarrow> val \<Rightarrow> string" where
  "ToString w v = (case v of
       JUndefined \<Rightarrow> ''undefined''
     | JNull \<Rightarrow> ''null''
     | JBool b \<Rightarrow> (if b then ''true'' else ''false'')
     | JNum n \<Rightarrow> show_int n
     | JStr s \<Rightarrow> s
     | _ \<Rightarrow> ObjectToString (sys w) v)"

definition resolveRelatedModel :: "world \<Rightarrow> string \<Rightarrow> error + model_class" where
  "resolveRelatedModel w n =
     (case map_of (registry w) n of None \<Rightarrow> Inl (ModelNotFound n) | Some C \<Rightarrow> Inr C)"

definition getRelatedClass :: "world \<Rightarrow> relation \<Rightarrow> error + model_class" where
  "getRelatedClass w rel =
     (case related rel of
        RelatedName n \<Rightarrow> resolveRelatedModel w n
      | RelatedModelBase \<Rightarrow>
          (case map_of (registry w) ''Model'' of Some C \<Rightarrow> Inr C | None \<Rightarrow> Inr Model_base))"

definition relation_segment :: "string \<Rightarrow> string" where
  "relation_segment relationName = takeWhile (\<lambda>c. c \<noteq> CHR ''.'') relationName"

definition nested_segments :: "string \<Rightarrow> string" where
  "nested_segments relationName = drop 1 (dropWhile (\<lambda>c. c \<noteq> CHR ''.'') relationName)"

definition localValues :: "model_class \<Rightarrow> world \<Rightarrow> relation \<Rightarrow> entity list \<Rightarrow> val list" where
  "localValues C w rel models =
     filter truthy (map (\<lambda>m. Model_getAttribute C w (state m) (localKey rel)) models)"

definition foreignValues :: "model_class \<Rightarrow> world \<Rightarrow> relation \<Rightarrow> entity list \<Rightarrow> val list" where
  "foreignValues C w rel models =
     filter truthy (map (\<lambda>m. Model_getAttribute C w (state m) (foreignKey rel)) models)"

definition relationQuery :: "builder \<Rightarrow> model_class \<Rightarrow> world \<Rightarrow> string \<Rightarrow> relation \<Rightarrow> model_class \<Rightarrow> entity list \<Rightarrow> builder" where
  "relationQuery b C w relationName rel relatedClass models =
     (let q0 = new_QueryBuilder (getTableName relatedClass) (Some relatedClass);
          q1 = (if kind rel = BelongsTo
                then QueryBuilder_whereIn (primaryKey relatedClass) (foreignValues C w rel models) q0
                else QueryBuilder_whereIn (foreignKey rel) (localValues C w rel models) q0);
          q2 = (case map_of (eagerLoadConstraints b) relationName of
                  None \<Rightarrow> q1
                | Some ps \<Rightarrow> q1\<lparr> query := fold add_where ps (query q1) \<rparr>)
      in if nested_segments relationName \<noteq> []
         then QueryBuilder_with [nested_segments relationName] q2 else q2)"

definition push_group :: "string \<Rightarrow> entity \<Rightarrow> (string \<times> entity list) list \<Rightarrow> (string \<times> entity list) list" where
  "push_group key e grouped =
     (case map_of grouped key of
        None \<Rightarrow> AList.update key [e] grouped
      | Some es \<Rightarrow> AList.update key (es @ [e]) grouped)"

definition group_related :: "model_class \<Rightarrow> world \<Rightarrow> entity list \<Rightarrow> (string \<times> entity list) list" where
  "group_related relatedClass w relatedModels =
     fold (\<lambda>e. push_group (ToString w (Model_getAttribute relatedClass w (state e) (primaryKey relatedClass))) e)
       relatedModels []"

definition assign_related :: "model_class \<Rightarrow> world \<Rightarrow> string \<Rightarrow> relation \<Rightarrow> (string \<times> entity list) list \<Rightarrow> entity \<Rightarrow> entity" where
  "assign_related C w relation_name rel grouped e =
     (let matchValue = (if kind rel = BelongsTo
                        then Model_getAttribute C w (state e) (foreignKey rel)
                        else Model_getAttribute C w (state e) (localKey rel));
          found = (case map_of grouped (ToString w matchValue) of None \<Rightarrow> [] | Some es \<Rightarrow> es)
      in if kind rel = HasOne \<or> kind rel = BelongsTo
         then Entity (state e) (AList.update relation_name (case found of [] \<Rightarrow> RNull | x # xs \<Rightarrow> ROne x) (relations e))
         else Entity (state e) (AList.update relation_name (RMany found) (relations e)))"

definition names_size :: "string list \<Rightarrow> nat" where
  "names_size names = sum_list (map (\<lambda>n. 4 * (length n + 1)) names)"

lemma eagerLoad_relationQuery:
  "eagerLoad (relationQuery b C w relationName rel relatedClass models) =
     (if nested_segments relationName \<noteq> [] then [nested_segments relationName] else [])"
  by (simp add: relationQuery_def Let_def QueryBuilder_with_def QueryBuilder_whereIn_def
      new_QueryBuilder_def split: option.split)

lemma nested_segments_shorter:
  "nested_segments relationName \<noteq> [] \<Longrightarrow> length (nested_segments relationName) < length relationName"
proof -
  assume nonempty: "nested_segments relationName \<noteq> []"
  have "length (dropWhile (\<lambda>c. c \<noteq> CHR ''.'') relationName) \<le> length relationName"
    by (rule length_dropWhile_le)
  moreover have "length (nested_segments relationName) <
      length (dropWhile (\<lambda>c. c \<noteq> CHR ''.'') relationName)"
    using nonempty unfolding nested_segments_def
    by (cases "dropWhile (\<lambda>c. c \<noteq> CHR ''.'') relationName") simp_all
  ultimately show ?thesis by linarith
qed

function QueryBuilder_get :: "builder \<Rightarrow> world \<Rightarrow> entity list outcome \<times> world"
  and loadRelations :: "builder \<Rightarrow> entity list \<Rightarrow> world \<Rightarrow> entity list outcome \<times> world"
  and loadRelations_each :: "builder \<Rightarrow> string list \<Rightarrow> entity list \<Rightarrow> world \<Rightarrow> entity list outcome \<times> world"
  and loadRelation :: "builder \<Rightarrow> entity list \<Rightarrow> string \<Rightarrow> world \<Rightarrow> entity list outcome \<times> world"
where
  "QueryBuilder_get b w =
     (case engine_select (softDeleteFilter b (query b)) w of
        (Threw err, w1) \<Rightarrow> (Threw err, w1)
      | (Returned rows, w1) \<Rightarrow>
          (case modelClass b of
             None \<Rightarrow> (if rows = [] then (Returned [], w1) else (Threw TypeError, w1))
           | Some C \<Rightarrow>
               if eagerLoad b \<noteq> [] then loadRelations b (map (hydrate C w1) rows) w1
               else (Returned (map (hydrate C w1) rows), w1)))"
| "loadRelations b models w =
     (if models = [] then (Returned models, w) else loadRelations_each b (eagerLoad b) models w)"
| "loadRelations_each b [] models w = (Returned models, w)"
| "loadRelations_each b (relationName # names) models w =
     (case loadRelation b models relationName w of
        (Threw err, w1) \<Rightarrow> (Threw err, w1)
      | (Returned models1, w1) \<Rightarrow> loadRelations_each b names models1 w1)"
| "loadRelation b models relationName w =
     (case modelClass b of
        None \<Rightarrow> (Threw (RelationNotFound (relation_segment relationName)), w)
      | Some C \<Rightarrow>
         (case map_of (relationMethods C) (relation_segment relationName) of
            None \<Rightarrow> (Threw (RelationNotFound (relation_segment relationName)), w)
          | Some rel \<Rightarrow>
              if localValues C w rel models = [] then (Returned models, w)
              else (case getRelatedClass w rel of
                      Inl err \<Rightarrow> (Threw err, w)
                    | Inr relatedClass \<Rightarrow>
                        (case QueryBuilder_get (relationQuery b C w relationName rel relatedClass models) w of
                           (Threw err, w1) \<Rightarrow> (Threw err, w1)
                         | (Returned relatedModels, w1) \<Rightarrow>
                             (Returned (map (assign_related C w1 (relation_segment relationName) rel
                                              (group_related relatedClass w1 relatedModels)) models), w1)))))"
  by pat_completeness auto
termination
  apply (relation "measure (\<lambda>x. case x of
            Inl (Inl (b, w)) \<Rightarrow> names_size (eagerLoad b) + 3
          | Inl (Inr (b, models, w)) \<Rightarrow> names_size (eagerLoad b) + 2
          | Inr (Inl (b, names, models, w)) \<Rightarrow> names_size names + 1
          | Inr (Inr (b, models, relationName, w)) \<Rightarrow> 4 * (length relationName + 1))")
  apply (auto simp: names_size_def eagerLoad_relationQuery dest: nested_segments_shorter)
  done

declare QueryBuilder_get.simps [simp del] loadRelations.simps [simp del]
  loadRelations_each.simps [simp del] loadRelation.simps [simp del]

text \<open>\<^verbatim>\<open>loadRelations([model])\<close> assigns the relations of \<^verbatim>\<open>model\<close> in place; the model
  returned afterwards is that object.\<close>

definition the_model :: "entity \<Rightarrow> entity list \<Rightarrow> entity" where
  "the_model e es = (case es of [] \<Rightarrow> e | x # xs \<Rightarrow> x)"

definition QueryBuilder_first :: "builder \<Rightarrow> world \<Rightarrow> entity option outcome \<times> world" where
  "QueryBuilder_first b w =
     (case engine_first (softDeleteFilter b (query b)) w of
        (Threw err, w1) \<Rightarrow> (Threw err, w1)
      | (Returned None, w1) \<Rightarrow> (Returned None, w1)
      | (Returned (Some r), w1) \<Rightarrow>
          (case modelClass b of
             None \<Rightarrow> (Threw TypeError, w1)
           | Some C \<Rightarrow>
               if eagerLoad b \<noteq> []
               then (case loadRelations b [hydrate C w1 r] w1 of
                       (Threw err, w2) \<Rightarrow> (Threw err, w2)
                     | (Returned models, w2) \<Rightarrow> (Returned (Some (the_model (hydrate C w1 r) models)), w2))
               else (Returned (Some (hydrate C w1 r)), w1)))"

text \<open>\<^verbatim>\<open>find\<close> returns the raw row when the builder has no model class.\<close>

datatype found = FoundModel entity | FoundRow row

definition QueryBuilder_find :: "builder \<Rightarrow> val \<Rightarrow> world \<Rightarrow> found option outcome \<times> world" where
  "QueryBuilder_find b ident w =
     (case engine_first (softDeleteFilter b (add_where (Where ''id'' ident) (query b))) w of
        (Threw err, w1) \<Rightarrow> (Threw err, w1)
      | (Returned None, w1) \<Rightarrow> (Returned None, w1)
      | (Returned (Some r), w1) \<Rightarrow>
          (case modelClass b of
             None \<Rightarrow> (Returned (Some (FoundRow r)), w1)
           | Some C \<Rightarrow>
               if eagerLoad b \<noteq> []
               then (case loadRelations b [hydrate C w1 r] w1 of
                       (Threw err, w2) \<Rightarrow> (Threw err, w2)
                     | (Returned models, w2) \<Rightarrow>
                         (Returned (Some (FoundModel (the_model (hydrate C w1 r) models))), w2))
               else (Returned (Some (FoundModel (hydrate C w1 r))), w1)))"

definition QueryBuilder_findOrFail :: "builder \<Rightarrow> val \<Rightarrow> world \<Rightarrow> found outcome \<times> world" where
  "QueryBuilder_findOrFail b ident w =
     (case QueryBuilder_find b ident w of
        (Threw err, w1) \<Rightarrow> (Threw err, w1)
      | (Returned None, w1) \<Rightarrow> (Threw (ModelNotFoundWithId ident), w1)
      | (Returned (Some r), w1) \<Rightarrow> (Returned r, w1))"

definition QueryBuilder_insert :: "builder \<Rightarrow> row \<Rightarrow> world \<Rightarrow> unit outcome \<times> world" where
  "QueryBuilder_insert b data w = engine_insert (from_table (query b)) data w"

definition QueryBuilder_insertGetId :: "builder \<Rightarrow> row \<Rightarrow> world \<Rightarrow> val outcome \<times> world" where
  "QueryBuilder_insertGetId b data w =
     (case modelClass b of
        None \<Rightarrow> (Threw TypeError, w)
      | Some C \<Rightarrow>
          (case engine_insert_returning (from_table (query b)) data (primaryKey C) w of
             (Threw err, w1) \<Rightarrow> (Threw err, w1)
           | (Returned [], w1) \<Rightarrow> (Returned JNull, w1)
           | (Returned (firstItem # rest), w1) \<Rightarrow>
               (case firstItem of
                  JNull \<Rightarrow> (Threw TypeError, w1)
                | JObj kvs \<Rightarrow> (Returned (property kvs (primaryKey C)), w1)
                | JArr xs \<Rightarrow> (Returned JUndefined, w1)
                | JDate t \<Rightarrow> (Returned JUndefined, w1)
                | _ \<Rightarrow> (Returned firstItem, w1))))"

definition QueryBuilder_update :: "builder \<Rightarrow> row \<Rightarrow> world \<Rightarrow> nat outcome \<times> world" where
  "QueryBuilder_update b data w = engine_update (query b) data w"

definition QueryBuilder_delete :: "builder \<Rightarrow> world \<Rightarrow> nat outcome \<times> world" where
  "QueryBuilder_delete b w = engine_delete (query b) w"

section \<open>Model.js: persistence and lifecycle hooks\<close>

definition Model_query :: "model_class \<Rightarrow> builder" where
  "Model_query C =
     (new_QueryBuilder (getTableName C) (Some C))
       \<lparr> query := fold add_where (concat (map snd (globalScopes C)))
                     \<lparr> from_table = getTableName C, wheres = [] \<rparr> \<rparr>"

fun run_handlers :: "model_class \<Rightarrow> string \<Rightarrow> handler list \<Rightarrow> model \<Rightarrow> world \<Rightarrow> bool \<times> model \<times> world" where
  "run_handlers C evt [] m w = (True, m, w)"
| "run_handlers C evt (h # hs) m w =
     (if fst (h m) = JBool False
      then (False, fold (\<lambda>(k, v). Model_setAttribute C w k v) (snd (h m)) m, w\<lparr> fired := fired w @ [evt] \<rparr>)
      else run_handlers C evt hs
             (fold (\<lambda>(k, v). Model_setAttribute C w k v) (snd (h m)) m)
             (w\<lparr> fired := fired w @ [evt] \<rparr>))"

definition handlers_of :: "model_class \<Rightarrow> string \<Rightarrow> handler list" where
  "handlers_of C evt = (case map_of (events C) evt of None \<Rightarrow> [] | Some hs \<Rightarrow> hs)"

definition fireEvent :: "model_class \<Rightarrow> string \<Rightarrow> model \<Rightarrow> world \<Rightarrow> bool \<times> model \<times> world" where
  "fireEvent C evt m w = run_handlers C evt (handlers_of C evt) m w"

definition getCurrentTimestamp :: "model_class \<Rightarrow> world \<Rightarrow> val" where
  "getCurrentTimestamp C w = JDate (zoned (sys w) (timezone_of C w) (clock (sys w)))"

text \<open>The tail of both persisting branches of \<^verbatim>\<open>save\<close>: the post-action hooks (their
  results are ignored), then \<^verbatim>\<open>syncOriginal\<close>.\<close>

definition after_persist :: "model_class \<Rightarrow> string \<Rightarrow> model \<Rightarrow> world \<Rightarrow> bool outcome \<times> model \<times> world" where
  "after_persist C evt m w =
     (case fireEvent C evt m w of
        (r1, m1, w1) \<Rightarrow>
          (case fireEvent C ''saved'' m1 w1 of
             (r2, m2, w2) \<Rightarrow> (Returned True, syncOriginal m2, w2)))"

definition stamp_new :: "model_class \<Rightarrow> world \<Rightarrow> model \<Rightarrow> model" where
  "stamp_new C w m =
     (let m1 = (if timestamps C
                then Model_setAttribute C w ''updated_at'' (getCurrentTimestamp C w)
                       (Model_setAttribute C w ''created_at'' (getCurrentTimestamp C w) m)
                else m)
      in if \<not> incrementing C \<and> keyType C = ''string'' \<and> \<not> truthy (getKey C m1)
         then Model_setAttribute C w (primaryKey C) (JStr (random_uuid (sys w))) m1
         else m1)"

text \<open>The two persisting blocks of \<^verbatim>\<open>save\<close>, entered once the pre-action hooks have
  passed: the insert of a new record and the update of an existing, dirty one.\<close>

definition insert_new :: "model_class \<Rightarrow> model \<Rightarrow> world \<Rightarrow> bool outcome \<times> model \<times> world" where
  "insert_new C m2 w2 =
     (if incrementing C
      then (case QueryBuilder_insertGetId (Model_query C) (attributes (stamp_new C w2 m2)) w2 of
              (Threw err, w3) \<Rightarrow> (Threw err, stamp_new C w2 m2, w3)
            | (Returned ident, w3) \<Rightarrow>
                after_persist C ''created''
                  ((Model_setAttribute C w3 (primaryKey C) ident (stamp_new C w2 m2))
                     \<lparr> exists := True, wasRecentlyCreated := True \<rparr>) w3)
      else (case QueryBuilder_insert (Model_query C) (attributes (stamp_new C w2 m2)) w2 of
              (Threw err, w3) \<Rightarrow> (Threw err, stamp_new C w2 m2, w3)
            | (Returned u, w3) \<Rightarrow>
                after_persist C ''created''
                  ((stamp_new C w2 m2)\<lparr> exists := True, wasRecentlyCreated := True \<rparr>) w3))"

definition stamp_update :: "model_class \<Rightarrow> world \<Rightarrow> model \<Rightarrow> model" where
  "stamp_update C w m =
     (if timestamps C then Model_setAttribute C w ''updated_at'' (getCurrentTimestamp C w) m else m)"

definition updateData :: "model \<Rightarrow> row" where
  "updateData m = AList.delete ''created_at'' (getDirty m)"

definition update_dirty :: "model_class \<Rightarrow> model \<Rightarrow> world \<Rightarrow> bool outcome \<times> model \<times> world" where
  "update_dirty C m2 w2 =
     (if updateData (stamp_update C w2 m2) \<noteq> []
      then (case QueryBuilder_update
                   (QueryBuilder_where (primaryKey C) (getKey C (stamp_update C w2 m2)) (Model_query C))
                   (updateData (stamp_update C w2 m2)) w2 of
              (Threw err, w3) \<Rightarrow> (Threw err, stamp_update C w2 m2, w3)
            | (Returned n, w3) \<Rightarrow> after_persist C ''updated'' (stamp_update C w2 m2) w3)
      else after_persist C ''updated'' (stamp_update C w2 m2) w2)"

definition Model_save :: "model_class \<Rightarrow> model \<Rightarrow> world \<Rightarrow> bool outcome \<times> model \<times> world" where
  "Model_save C m0 w =
     (let m = Model_initialize C w m0 in
      if \<not> exists m then
        (case fireEvent C ''creating'' m w of
           (False, m1, w1) \<Rightarrow> (Returned False, m1, w1)
         | (True, m1, w1) \<Rightarrow>
             (case fireEvent C ''saving'' m1 w1 of
                (False, m2, w2) \<Rightarrow> (Returned False, m2, w2)
              | (True, m2, w2) \<Rightarrow> insert_new C m2 w2))
      else if isDirty m then
        (case fireEvent C ''updating'' m w of
           (False, m1, w1) \<Rightarrow> (Returned False, m1, w1)
         | (True, m1, w1) \<Rightarrow>
             (case fireEvent C ''saving'' m1 w1 of
                (False, m2, w2) \<Rightarrow> (Returned False, m2, w2)
              | (True, m2, w2) \<Rightarrow> update_dirty C m2 w2))
      else (Returned True, m, w))"

definition Model_delete :: "model_class \<Rightarrow> model \<Rightarrow> world \<Rightarrow> bool outcome \<times> model \<times> world" where
  "Model_delete C m w =
     (if \<not> exists m then (Returned False, m, w)
      else (case fireEvent C ''deleting'' m w of
              (r1, m1, w1) \<Rightarrow>
                if softDeletes C
                then (case Model_save C (Model_setAttribute C w1 ''deleted_at'' (JDate (clock (sys w1))) m1) w1 of
                        (Threw err, m2, w2) \<Rightarrow> (Threw err, m2, w2)
                      | (Returned saved, m2, w2) \<Rightarrow>
                          (case fireEvent C ''deleted'' m2 w2 of
                             (r3, m3, w3) \<Rightarrow> (Returned True, m3, w3)))
                else (case QueryBuilder_delete
                             (QueryBuilder_where (primaryKey C) (getKey C m1) (Model_query C)) w1 of
                        (Threw err, w2) \<Rightarrow> (Threw err, m1, w2)
                      | (Returned n, w2) \<Rightarrow>
                          (case fireEvent C ''deleted'' (m1\<lparr> exists := False \<rparr>) w2 of
                             (r3, m3, w3) \<Rightarrow> (Returned True, m3, w3)))))"

definition Model_restore :: "model_class \<Rightarrow> model \<Rightarrow> world \<Rightarrow> bool outcome \<times> model \<times> world" where
  "Model_restore C m w =
     (if \<not> softDeletes C \<or> \<not> truthy (Model_getAttribute C w m ''deleted_at'')
      then (Returned False, m, w)
      else (case fireEvent C ''restoring'' m w of
              (r1, m1, w1) \<Rightarrow>
                (case Model_save C (Model_setAttribute C w1 ''deleted_at'' JNull m1) w1 of
                   (Threw err, m2, w2) \<Rightarrow> (Threw err, m2, w2)
                 | (Returned saved, m2, w2) \<Rightarrow>
                     (case fireEvent C ''restored'' m2 w2 of
                        (r3, m3, w3) \<Rightarrow> (Returned True, m3, w3)))))"

section \<open>Relation.js: MorphTo\<close>

text \<open>\<^verbatim>\<open>ModelRegistry.get\<close> is a \<^verbatim>\<open>Map\<close> lookup: only a string can be a registered name.\<close>

definition ModelRegistry_get :: "world \<Rightarrow> val \<Rightarrow> model_class option" where
  "ModelRegistry_get w n = (case n of JStr s \<Rightarrow> map_of (registry w) s | _ \<Rightarrow> None)"

definition MorphTo_getResults :: "model_class \<Rightarrow> model \<Rightarrow> string \<Rightarrow> string \<Rightarrow> world \<Rightarrow> entity option outcome \<times> world" where
  "MorphTo_getResults C parent morphType morphId w =
     (if \<not> truthy (Model_getAttribute C w parent morphType) \<or> \<not> truthy (Model_getAttribute C w parent morphId)
      then (Returned None, w)
      else (case ModelRegistry_get w (Model_getAttribute C w parent morphType) of
              None \<Rightarrow> (Threw (MorphModelNotFound (ToString w (Model_getAttribute C w parent morphType))), w)
            | Some ModelClass \<Rightarrow>
                QueryBuilder_first
                  (QueryBuilder_where (primaryKey ModelClass) (Model_getAttribute C w parent morphId)
                     (new_QueryBuilder (getTableName ModelClass) (Some ModelClass))) w))"

section \<open>Queries only read\<close>

text \<open>\<open>reads w w'\<close>: the world \<open>w'\<close> is \<open>w\<close> with more calls in its log, and nothing else changed.\<close>

definition reads :: "world \<Rightarrow> world \<Rightarrow> bool" where
  "reads w w' = (\<exists>ops. w' = w\<lparr> log := log w @ ops \<rparr>)"

lemma reads_refl: "reads w w"
  by (auto simp: reads_def intro: exI [of _ "[]"])

lemma reads_trans: "reads w w1 \<Longrightarrow> reads w1 w2 \<Longrightarrow> reads w w2"
  by (auto simp: reads_def)

lemma reads_issue: "reads w (issue c w)"
  by (auto simp: reads_def issue_def)

lemma reads_engine_select: "reads w (snd (engine_select q w))"
  by (simp add: engine_select_def reads_issue)

lemma reads_engine_first: "reads w (snd (engine_first q w))"
  by (simp add: engine_first_def reads_issue)

lemma reads_get_all:
  "reads w (snd (QueryBuilder_get b w))"
  "reads w (snd (loadRelations b models w))"
  "reads w (snd (loadRelations_each b names models w))"
  "reads w (snd (loadRelation b models relationName w))"
proof (induction b w and b models w and b names models w and b models relationName w
    rule: QueryBuilder_get_loadRelations_loadRelations_each_loadRelation.induct)
  case (1 b w)
  obtain r w1 where sel: "engine_select (softDeleteFilter b (query b)) w = (r, w1)"
    by force
  have r1: "reads w w1"
    using reads_engine_select [of w "softDeleteFilter b (query b)"] sel by simp
  show ?case
  proof (cases r)
    case (Threw err)
    then show ?thesis
      using sel r1 by (subst QueryBuilder_get.simps) simp
  next
    case (Returned rows)
    show ?thesis
    proof (cases "modelClass b")
      case None
      then show ?thesis
        using sel Returned r1 by (subst QueryBuilder_get.simps) simp
    next
      case (Some C)
      show ?thesis
      proof (cases "eagerLoad b = []")
        case True
        then show ?thesis
          using sel Returned Some r1 by (subst QueryBuilder_get.simps) simp
      next
        case False
        have "reads w1 (snd (loadRelations b (map (hydrate C w1) rows) w1))"
          using "1.IH" [OF sel [symmetric] Returned Some False] .
        then show ?thesis
          using sel Returned Some False r1
          by (subst QueryBuilder_get.simps) (auto intro: reads_trans)
      qed
    qed
  qed
next
  case (2 b models w)
  then show ?case
    by (subst loadRelations.simps) (simp add: reads_refl)
next
  case (3 b models w)
  then show ?case
    by (subst loadRelations_each.simps) (simp add: reads_refl)
next
  case (4 b relationName names models w)
  obtain r w1 where one: "loadRelation b models relationName w = (r, w1)"
    by force
  have r1: "reads w w1"
    using "4.IH"(1) one by simp
  show ?case
  proof (cases r)
    case (Threw err)
    then show ?thesis
      using one r1 by (subst loadRelations_each.simps) simp
  next
    case (Returned models1)
    have "reads w1 (snd (loadRelations_each b names models1 w1))"
      using "4.IH"(2) [OF one [symmetric] Returned] .
    then show ?thesis
      using one Returned r1 by (subst loadRelations_each.simps) (auto intro: reads_trans)
  qed
next
  case (5 b models relationName w)
  show ?case
  proof (cases "modelClass b")
    case None
    then show ?thesis
      by (subst loadRelation.simps) (simp add: reads_refl)
  next
    case (Some C)
    show ?thesis
    proof (cases "map_of (relationMethods C) (relation_segment relationName)")
      case None
      then show ?thesis
        using Some by (subst loadRelation.simps) (simp add: reads_refl)
    next
      case (Some rel)
      note rel = this
      show ?thesis
      proof (cases "localValues C w rel models = []")
        case True
        then show ?thesis
          using \<open>modelClass b = Some C\<close> rel by (subst loadRelation.simps) (simp add: reads_refl)
      next
        case False
        show ?thesis
        proof (cases "getRelatedClass w rel")
          case (Inl err)
          then show ?thesis
            using \<open>modelClass b = Some C\<close> rel False
            by (subst loadRelation.simps) (simp add: reads_refl)
        next
          case (Inr relatedClass)
          have "reads w (snd (QueryBuilder_get (relationQuery b C w relationName rel relatedClass models) w))"
            using "5.IH" [OF \<open>modelClass b = Some C\<close> rel False Inr] .
          then show ?thesis
            using \<open>modelClass b = Some C\<close> rel False Inr
            by (subst loadRelation.simps) (auto split: prod.splits outcome.splits)
        qed
      qed
    qed
  qed
qed

section \<open>Claim C10: find filters on the literal column id\<close>

text \<open>\<^verbatim>\<open>static async find(id) { return this.query().find(id); }\<close>\<close>

definition Model_find :: "model_class \<Rightarrow> val \<Rightarrow> world \<Rightarrow> found option outcome \<times> world" where
  "Model_find C ident w = QueryBuilder_find (Model_query C) ident w"

lemma reads_log: "reads w w' \<Longrightarrow> \<exists>ops. log w' = log w @ ops"
  by (auto simp: reads_def)

lemma engine_first_log: "log (snd (engine_first q w)) = log w @ [First q]"
  by (simp add: engine_first_def issue_def)

lemma findOrFail_world: "snd (QueryBuilder_findOrFail b ident w) = snd (QueryBuilder_find b ident w)"
  by (auto simp: QueryBuilder_findOrFail_def split: prod.splits outcome.splits option.splits)

lemma Model_query_find_filter:
  "softDeleteFilter (Model_query C) (add_where (Where ''id'' ident) (query (Model_query C))) =
     \<lparr> from_table = getTableName C,
       wheres = concat (map snd (globalScopes C)) @ Where ''id'' ident #
                (if softDeletes C then [WhereNull ''deleted_at''] else []) \<rparr>"
proof -
  have fold_add: "\<And>ps q. fold add_where ps q = q\<lparr> wheres := wheres q @ ps \<rparr>"
  proof -
    fix ps :: "pred list" and q :: knex
    show "fold add_where ps q = q\<lparr> wheres := wheres q @ ps \<rparr>"
      by (induction ps arbitrary: q) (simp_all add: add_where_def)
  qed
  show ?thesis
    by (simp add: Model_query_def softDeleteFilter_def new_QueryBuilder_def add_where_def fold_add)
qed

text \<open>\<open>selects w w'\<close>: the world \<open>w'\<close> is \<open>w\<close> with more calls in its log, all of them
  \<^verbatim>\<open>select\<close> queries.\<close>

definition is_select :: "op \<Rightarrow> bool" where
  "is_select c = (case c of Select q \<Rightarrow> True | _ \<Rightarrow> False)"

definition selects :: "world \<Rightarrow> world \<Rightarrow> bool" where
  "selects w w' = (\<exists>ops. w' = w\<lparr> log := log w @ ops \<rparr> \<and> list_all is_select ops)"

lemma selects_refl: "selects w w"
  by (auto simp: selects_def intro: exI [of _ "[]"])

lemma selects_trans: "selects w w1 \<Longrightarrow> selects w1 w2 \<Longrightarrow> selects w w2"
proof -
  assume "selects w w1" and "selects w1 w2"
  then obtain ops1 ops2 where
    "w1 = w\<lparr> log := log w @ ops1 \<rparr>" "list_all is_select ops1"
    "w2 = w1\<lparr> log := log w1 @ ops2 \<rparr>" "list_all is_select ops2"
    unfolding selects_def by blast
  then have "w2 = w\<lparr> log := log w @ (ops1 @ ops2) \<rparr> \<and> list_all is_select (ops1 @ ops2)"
    by simp
  then show "selects w w2"
    unfolding selects_def by blast
qed

lemma selects_engine_select: "selects w (snd (engine_select q w))"
  by (auto simp: engine_select_def selects_def issue_def is_select_def intro: exI [of _ "[Select q]"])

lemma selects_get_all:
  "selects w (snd (QueryBuilder_get b w))"
  "selects w (snd (loadRelations b models w))"
  "selects w (snd (loadRelations_each b names models w))"
  "selects w (snd (loadRelation b models relationName w))"
proof (induction b w and b models w and b names models w and b models relationName w
    rule: QueryBuilder_get_loadRelations_loadRelations_each_loadRelation.induct)
  case (1 b w)
  obtain r w1 where sel: "engine_select (softDeleteFilter b (query b)) w = (r, w1)"
    by force
  have r1: "selects w w1"
    using selects_engine_select [of w "softDeleteFilter b (query b)"] sel by simp
  show ?case
  proof (cases r)
    case (Threw err)
    then show ?thesis
      using sel r1 by (subst QueryBuilder_get.simps) simp
  next
    case (Returned rows)
    show ?thesis
    proof (cases "modelClass b")
      case None
      then show ?thesis
        using sel Returned r1 by (subst QueryBuilder_get.simps) simp
    next
      case (Some C)
      show ?thesis
      proof (cases "eagerLoad b = []")
        case True
        then show ?thesis
          using sel Returned Some r1 by (subst QueryBuilder_get.simps) simp
      next
        case False
        have "selects w1 (snd (loadRelations b (map (hydrate C w1) rows) w1))"
          using "1.IH" [OF sel [symmetric] Returned Some False] .
        then show ?thesis
          using sel Returned Some False r1
          by (subst QueryBuilder_get.simps) (auto intro: selects_trans)
      qed
    qed
  qed
next
  case (2 b models w)
  then show ?case
    by (subst loadRelations.simps) (simp add: selects_refl)
next
  case (3 b models w)
  then show ?case
    by (subst loadRelations_each.simps) (simp add: selects_refl)
next
  case (4 b relationName names models w)
  obtain r w1 where one: "loadRelation b models relationName w = (r, w1)"
    by force
  have r1: "selects w w1"
    using "4.IH"(1) one by simp
  show ?case
  proof (cases r)
    case (Threw err)
    then show ?thesis
      using one r1 by (subst loadRelations_each.simps) simp
  next
    case (Returned models1)
    have "selects w1 (snd (loadRelations_each b names models1 w1))"
      using "4.IH"(2) [OF one [symmetric] Returned] .
    then show ?thesis
      using one Returned r1 by (subst loadRelations_each.simps) (auto intro: selects_trans)
  qed
next
  case (5 b models relationName w)
  show ?case
  proof (cases "modelClass b")
    case None
    then show ?thesis
      by (subst loadRelation.simps) (simp add: selects_refl)
  next
    case (Some C)
    show ?thesis
    proof (cases "map_of (relationMethods C) (relation_segment relationName)")
      case None
      then show ?thesis
        using Some by (subst loadRelation.simps) (simp add: selects_refl)
    next
      case (Some rel)
      note rel = this
      show ?thesis
      proof (cases "localValues C w rel models = []")
        case True
        then show ?thesis
          using \<open>modelClass b = Some C\<close> rel by (subst loadRelation.simps) (simp add: selects_refl)
      next
        case False
        show ?thesis
        proof (cases "getRelatedClass w rel")
          case (Inl err)
          then show ?thesis
            using \<open>modelClass b = Some C\<close> rel False
            by (subst loadRelation.simps) (simp add: selects_refl)
        next
          case (Inr relatedClass)
          have "selects w (snd (QueryBuilder_get (relationQuery b C w relationName rel relatedClass models) w))"
            using "5.IH" [OF \<open>modelClass b = Some C\<close> rel False Inr] .
          then show ?thesis
            using \<open>modelClass b = Some C\<close> rel False Inr
            by (subst loadRelation.simps) (auto split: prod.splits outcome.splits)
        qed
      qed
    qed
  qed
qed


lemma selects_log: "selects w w' \<Longrightarrow> \<exists>ops. log w' = log w @ ops \<and> list_all is_select ops"
  by (auto simp: selects_def)

lemma find_log_exact:
  "\<exists>rest. log (snd (QueryBuilder_find b ident w)) =
     log w @ First (softDeleteFilter b (add_where (Where ''id'' ident) (query b))) # rest \<and>
     list_all is_select rest \<and> (eagerLoad b = [] \<longrightarrow> rest = [])"
proof -
  let ?q = "softDeleteFilter b (add_where (Where ''id'' ident) (query b))"
  obtain r w1 where fst_call: "engine_first ?q w = (r, w1)"
    by force
  have w1: "log w1 = log w @ [First ?q]"
    using engine_first_log [of ?q w] fst_call by simp
  show ?thesis
  proof (cases "\<exists>row C. r = Returned (Some row) \<and> modelClass b = Some C \<and> eagerLoad b \<noteq> []")
    case True
    then obtain row C where *: "r = Returned (Some row)" "modelClass b = Some C" "eagerLoad b \<noteq> []"
      by blast
    obtain ops where "log (snd (loadRelations b [hydrate C w1 row] w1)) = log w1 @ ops"
      "list_all is_select ops"
      using selects_log [OF selects_get_all(2)] by blast
    then show ?thesis
      using fst_call * w1
      by (auto simp: QueryBuilder_find_def split: prod.splits outcome.splits)
  next
    case False
    then have "snd (QueryBuilder_find b ident w) = w1"
      using fst_call
      by (auto simp: QueryBuilder_find_def split: prod.splits outcome.splits option.splits)
    then show ?thesis
      using w1 by simp
  qed
qed

lemma softDeleteFilter_primaryKey:
  "softDeleteFilter (b\<lparr> modelClass := Some (C\<lparr> primaryKey := pk \<rparr>) \<rparr>) q =
   softDeleteFilter (b\<lparr> modelClass := Some C \<rparr>) q"
  by (simp add: softDeleteFilter_def)

lemma hydrate_primaryKey: "hydrate (C\<lparr> primaryKey := pk \<rparr>) = hydrate C"
proof -
  have "\<And>w k v x. Model_setAttribute (C\<lparr> primaryKey := pk \<rparr>) w k v x = Model_setAttribute C w k v x"
    by (simp add: Model_setAttribute_def)
  then have "\<And>w. Model_setAttribute (C\<lparr> primaryKey := pk \<rparr>) w = Model_setAttribute C w"
    by (intro ext)
  then show ?thesis
    by (intro ext) (simp add: hydrate_def Model_initialize_def split: option.split)
qed

lemma Model_query_plain:
  "eagerLoad (Model_query C) = []" "modelClass (Model_query C) = Some C"
  by (simp_all add: Model_query_def new_QueryBuilder_def)

lemma Model_find_primaryKey:
  "Model_find (C\<lparr> primaryKey := pk \<rparr>) ident w = Model_find C ident w"
proof -
  let ?C = "C\<lparr> primaryKey := pk \<rparr>"
  have q: "softDeleteFilter (Model_query ?C) (add_where (Where ''id'' ident) (query (Model_query ?C))) =
           softDeleteFilter (Model_query C) (add_where (Where ''id'' ident) (query (Model_query C)))"
    unfolding Model_query_find_filter by (simp add: getTableName_def split: option.split)
  show ?thesis
    unfolding Model_find_def QueryBuilder_find_def q
    by (simp add: hydrate_primaryKey Model_query_plain split: prod.split outcome.split option.split)
qed

text \<open>
  Claim C10. \<^verbatim>\<open>Model.find(id)\<close> sends exactly one query: the first row of the class's
  table under the global scopes, the predicate on the literal column \<open>''id''\<close> and the
  soft-delete filter. The configured \<open>primaryKey\<close> of the class is not read: with any
  other primary key the result and the world after the call are the same. For every
  builder, \<^verbatim>\<open>find(id)\<close> and \<^verbatim>\<open>findOrFail(id)\<close> send the builder's query with the predicate
  \<open>Where ''id'' ident\<close> added (and the soft-delete filter after it); nothing else is sent
  when the builder has no eager load, and otherwise only the \<^verbatim>\<open>select\<close> queries of the
  eager loading follow.
\<close>

theorem find_filters_on_literal_id:
  "log (snd (Model_find C ident w)) =
      log w @ [First \<lparr> from_table = getTableName C,
                       wheres = concat (map snd (globalScopes C)) @ Where ''id'' ident #
                                (if softDeletes C then [WhereNull ''deleted_at''] else []) \<rparr>] \<and>
   Model_find (C\<lparr> primaryKey := pk \<rparr>) ident w = Model_find C ident w \<and>
   (\<exists>rest. log (snd (QueryBuilder_find b ident w)) =
      log w @ First (softDeleteFilter b (add_where (Where ''id'' ident) (query b))) # rest \<and>
      list_all is_select rest \<and> (if eagerLoad b = [] then rest = [] else True)) \<and>
   (\<exists>rest. log (snd (QueryBuilder_findOrFail b ident w)) =
      log w @ First (softDeleteFilter b (add_where (Where ''id'' ident) (query b))) # rest \<and>
      list_all is_select rest \<and> (if eagerLoad b = [] then rest = [] else True))"
proof -
  from find_log_exact [of b ident w] obtain rest where rest:
    "log (snd (QueryBuilder_find b ident w)) =
       log w @ First (softDeleteFilter b (add_where (Where ''id'' ident) (query b))) # rest"
    "list_all is_select rest" "eagerLoad b = [] \<longrightarrow> rest = []"
    by blast
  from find_log_exact [of "Model_query C" ident w, unfolded Model_query_find_filter]
  have "log (snd (Model_find C ident w)) =
      log w @ [First \<lparr> from_table = getTableName C,
                       wheres = concat (map snd (globalScopes C)) @ Where ''id'' ident #
                                (if softDeletes C then [WhereNull ''deleted_at''] else []) \<rparr>]"
    by (auto simp: Model_find_def Model_query_plain)
  moreover have "\<exists>rest. log (snd (QueryBuilder_find b ident w)) =
      log w @ First (softDeleteFilter b (add_where (Where ''id'' ident) (query b))) # rest \<and>
      list_all is_select rest \<and> (if eagerLoad b = [] then rest = [] else True)"
    using rest by (intro exI [of _ rest]) simp
  ultimately show ?thesis
    by (simp add: findOrFail_world Model_find_primaryKey)
qed

section \<open>Example data\<close>

text \<open>A platform and a world for the concrete scenarios: no table, no registered model,
  an engine that never fails.\<close>

definition example_platform :: platform where
  "example_platform = \<lparr> JSON_parse = (\<lambda>v. None), JSON_stringify = (\<lambda>v. JUndefined),
      moment_format = (\<lambda>tz v. None), format_local = (\<lambda>t. ''2026-01-01 00:00:00''),
      ObjectToString = (\<lambda>v. ''[object Object]''), clock = 1000, zoned = (\<lambda>tz t. t),
      config_timezone = None, random_uuid = ''6f1c2a9e-5d3b-4c7a-8e21-0b9d4f6a7c35'' \<rparr>"

definition empty_world :: world where
  "empty_world = \<lparr> tables = [], log = [], failing = (\<lambda>c. False), fired = [], registry = [],
      sys = example_platform \<rparr>"

definition persisted :: "row \<Rightarrow> model" where
  "persisted r = \<lparr> attributes = r, original = r, exists = True, wasRecentlyCreated = False,
      p_dirty = [], p_deferred = None \<rparr>"

section \<open>Claim C7: MorphTo with an unregistered type name\<close>

text \<open>
  Claim C7, as stated, fails: the guard of \<^verbatim>\<open>MorphTo.getResults\<close> is
  \<^verbatim>\<open>!morphType || !morphId\<close>, so an owner whose id is the non-null value \<open>0\<close> gets
  \<^verbatim>\<open>null\<close> although its type name \<open>Ghost\<close> is not registered.
\<close>

theorem morphTo_zero_id_counterexample:
  "JNum 0 \<noteq> (JNull :: val) \<and>
   map_of (registry empty_world) ''Ghost'' = None \<and>
   MorphTo_getResults Model_base
     (persisted [(''id'', JNum 1), (''commentable_type'', JStr ''Ghost''), (''commentable_id'', JNum 0)])
     ''commentable_type'' ''commentable_id'' empty_world = (Returned None, empty_world)"
  by (simp add: MorphTo_getResults_def Model_getAttribute_def Model_base_def persisted_def
      property_def empty_world_def)

text \<open>
  Claim C7, amended: when the stored type name and the stored id are both truthy and the
  type name is not in the Type Registry, \<^verbatim>\<open>getResults\<close> throws the error that names the
  missing model, and sends nothing to the engine.
\<close>

theorem morphTo_unregistered_throws:
  assumes "truthy (Model_getAttribute C w parent morphType)"
    and "truthy (Model_getAttribute C w parent morphId)"
    and "ModelRegistry_get w (Model_getAttribute C w parent morphType) = None"
  shows "MorphTo_getResults C parent morphType morphId w =
           (Threw (MorphModelNotFound (ToString w (Model_getAttribute C w parent morphType))), w)"
  using assms by (simp add: MorphTo_getResults_def)

theorem morphTo_unregistered_throws_witness:
  "truthy (JStr ''Ghost'' :: val) \<and> truthy (JNum 7 :: val) \<and>
   ModelRegistry_get empty_world (JStr ''Ghost'') = None \<and>
   MorphTo_getResults Model_base
     (persisted [(''id'', JNum 1), (''commentable_type'', JStr ''Ghost''), (''commentable_id'', JNum 7)])
     ''commentable_type'' ''commentable_id'' empty_world =
   (Threw (MorphModelNotFound ''Ghost''), empty_world)"
proof -
  let ?p = "persisted [(''id'', JNum 1), (''commentable_type'', JStr ''Ghost''), (''commentable_id'', JNum 7)]"
  have t: "Model_getAttribute Model_base empty_world ?p ''commentable_type'' = JStr ''Ghost''"
    by (simp add: Model_getAttribute_def Model_base_def persisted_def property_def)
  have i: "Model_getAttribute Model_base empty_world ?p ''commentable_id'' = JNum 7"
    by (simp add: Model_getAttribute_def Model_base_def persisted_def property_def)
  have r: "ModelRegistry_get empty_world (JStr ''Ghost'') = None"
    by (simp add: ModelRegistry_get_def empty_world_def)
  show ?thesis
    using morphTo_unregistered_throws [of Model_base empty_world ?p "''commentable_type''" "''commentable_id''"]
    by (simp add: t i r ToString_def)
qed

text \<open>The guard of \<^verbatim>\<open>getResults\<close> in general: a falsy stored type name or id gives \<^verbatim>\<open>null\<close>,
  with nothing sent and the registry not consulted.\<close>

lemma morphTo_falsy_returns_null:
  "\<not> truthy (Model_getAttribute C w parent morphType) \<or>
   \<not> truthy (Model_getAttribute C w parent morphId) \<Longrightarrow>
   MorphTo_getResults C parent morphType morphId w = (Returned None, w)"
  by (simp add: MorphTo_getResults_def)

section \<open>Facts about attributes and hooks\<close>

lemma setAttribute_fields [simp]:
  "exists (Model_setAttribute C w k v m) = exists m"
  "p_deferred (Model_setAttribute C w k v m) = p_deferred m"
  "original (Model_setAttribute C w k v m) = original m"
  "wasRecentlyCreated (Model_setAttribute C w k v m) = wasRecentlyCreated m"
  by (simp_all add: Model_setAttribute_def Let_def)

lemma setAttribute_dirty:
  "p_dirty (Model_setAttribute C w k v m) =
     (if p_deferred m = None \<and> exists m
      then (if k \<in> set (p_dirty m) then p_dirty m else p_dirty m @ [k])
      else p_dirty m)"
  by (simp add: Model_setAttribute_def Let_def)

lemma setAttribute_other:
  "k' \<noteq> k \<Longrightarrow> map_of (attributes (Model_setAttribute C w k v m)) k' = map_of (attributes m) k'"
  by (simp add: Model_setAttribute_def Let_def update_conv')

text \<open>A list of assignments, as \<^verbatim>\<open>_initialize\<close> and the handlers apply them.\<close>

abbreviation assign :: "model_class \<Rightarrow> world \<Rightarrow> (string \<times> val) list \<Rightarrow> model \<Rightarrow> model" where
  "assign C w kvs m \<equiv> fold (\<lambda>(k, v). Model_setAttribute C w k v) kvs m"

lemma assign_fields [simp]:
  "exists (assign C w kvs m) = exists m"
  "p_deferred (assign C w kvs m) = p_deferred m"
  "original (assign C w kvs m) = original m"
  "wasRecentlyCreated (assign C w kvs m) = wasRecentlyCreated m"
  by (induction kvs arbitrary: m; simp add: split_def)+

lemma assign_dirty_unmarked:
  "\<not> (p_deferred m = None \<and> exists m) \<Longrightarrow> p_dirty (assign C w kvs m) = p_dirty m"
  by (induction kvs arbitrary: m) (simp_all add: split_def setAttribute_dirty)

text \<open>\<open>tracked m\<close>: on an initialised, existing model every attribute that differs from
  its original is in the dirty set.\<close>

definition tracked :: "model \<Rightarrow> bool" where
  "tracked m = (p_deferred m = None \<and> exists m \<longrightarrow>
                  (\<forall>k. map_of (attributes m) k \<noteq> map_of (original m) k \<longrightarrow> k \<in> set (p_dirty m)))"

lemma tracked_setAttribute: "tracked m \<Longrightarrow> p_deferred m = None \<Longrightarrow> tracked (Model_setAttribute C w k v m)"
  unfolding tracked_def
  by (auto simp: setAttribute_dirty setAttribute_other) (metis setAttribute_other)+

lemma tracked_assign: "tracked m \<Longrightarrow> p_deferred m = None \<Longrightarrow> tracked (assign C w kvs m)"
  by (induction kvs arbitrary: m) (simp_all add: split_def tracked_setAttribute)

lemma tracked_syncOriginal: "tracked (syncOriginal m)"
  by (simp add: tracked_def syncOriginal_def)

lemma initialize_fields [simp]:
  "exists (Model_initialize C w m) = exists m"
  "p_deferred (Model_initialize C w m) = None"
  "wasRecentlyCreated (Model_initialize C w m) = wasRecentlyCreated m"
  by (simp_all add: Model_initialize_def syncOriginal_def split: option.split)

lemma initialize_idem: "p_deferred m = None \<Longrightarrow> Model_initialize C w m = m"
  by (simp add: Model_initialize_def)

lemma initialize_clean:
  "p_deferred m \<noteq> None \<Longrightarrow>
     p_dirty (Model_initialize C w m) = [] \<and>
     original (Model_initialize C w m) = attributes (Model_initialize C w m)"
  by (auto simp: Model_initialize_def syncOriginal_def)

lemma initialize_dirty_empty: "p_dirty m = [] \<Longrightarrow> p_dirty (Model_initialize C w m) = []"
  by (simp add: Model_initialize_def syncOriginal_def split: option.split)

lemma tracked_initialize: "tracked m \<Longrightarrow> tracked (Model_initialize C w m)"
  by (cases "p_deferred m") (simp_all add: initialize_idem tracked_def initialize_clean)

text \<open>\<open>quiet w w'\<close>: between \<open>w\<close> and \<open>w'\<close> only handlers have run.\<close>

definition quiet :: "world \<Rightarrow> world \<Rightarrow> bool" where
  "quiet w w' = (\<exists>evs. w' = w\<lparr> fired := fired w @ evs \<rparr>)"

lemma quiet_refl: "quiet w w"
  by (auto simp: quiet_def intro: exI [of _ "[]"])

lemma quiet_trans: "quiet w w1 \<Longrightarrow> quiet w1 w2 \<Longrightarrow> quiet w w2"
  by (auto simp: quiet_def)

lemma quiet_fields:
  "quiet w w' \<Longrightarrow> log w' = log w \<and> tables w' = tables w \<and> failing w' = failing w
     \<and> registry w' = registry w \<and> sys w' = sys w"
  by (auto simp: quiet_def)

lemma assign_sys: "sys w' = sys w \<Longrightarrow> assign C w' kvs m = assign C w kvs m"
proof -
  assume s: "sys w' = sys w"
  have "\<And>k v x. Model_setAttribute C w' k v x = Model_setAttribute C w k v x"
    unfolding Model_setAttribute_def s ..
  then have "Model_setAttribute C w' = Model_setAttribute C w"
    by (intro ext)
  then show ?thesis
    by simp
qed

lemma run_handlers_props:
  "run_handlers C evt hs m w = (r, m', w') \<Longrightarrow>
     quiet w w' \<and> exists m' = exists m \<and> p_deferred m' = p_deferred m \<and> original m' = original m
       \<and> wasRecentlyCreated m' = wasRecentlyCreated m"
proof (induction hs arbitrary: m w)
  case Nil
  then show ?case by (auto simp: quiet_refl)
next
  case (Cons h hs)
  let ?m1 = "assign C w (snd (h m)) m"
  let ?w1 = "w\<lparr> fired := fired w @ [evt] \<rparr>"
  have q1: "quiet w ?w1"
    by (auto simp: quiet_def)
  show ?case
  proof (cases "fst (h m) = JBool False")
    case True
    then show ?thesis
      using Cons.prems q1 by auto
  next
    case False
    then have "run_handlers C evt hs ?m1 ?w1 = (r, m', w')"
      using Cons.prems by simp
    from Cons.IH [OF this] show ?thesis
      using q1 by (auto intro: quiet_trans)
  qed
qed

lemma fireEvent_props:
  "fireEvent C evt m w = (r, m', w') \<Longrightarrow>
     quiet w w' \<and> exists m' = exists m \<and> p_deferred m' = p_deferred m \<and> original m' = original m
       \<and> wasRecentlyCreated m' = wasRecentlyCreated m"
  unfolding fireEvent_def by (rule run_handlers_props)

lemma run_handlers_tracked:
  "run_handlers C evt hs m w = (r, m', w') \<Longrightarrow> tracked m \<Longrightarrow> p_deferred m = None \<Longrightarrow> tracked m'"
proof (induction hs arbitrary: m w)
  case Nil
  then show ?case by simp
next
  case (Cons h hs)
  let ?m1 = "assign C w (snd (h m)) m"
  have t1: "tracked ?m1" "p_deferred ?m1 = None"
    using Cons.prems by (simp_all add: tracked_assign)
  show ?case
  proof (cases "fst (h m) = JBool False")
    case True
    then show ?thesis
      using Cons.prems t1 by auto
  next
    case False
    then have "run_handlers C evt hs ?m1 (w\<lparr> fired := fired w @ [evt] \<rparr>) = (r, m', w')"
      using Cons.prems by simp
    from Cons.IH [OF this t1] show ?thesis .
  qed
qed

lemma fireEvent_tracked:
  "fireEvent C evt m w = (r, m', w') \<Longrightarrow> tracked m \<Longrightarrow> p_deferred m = None \<Longrightarrow> tracked m'"
  unfolding fireEvent_def by (rule run_handlers_tracked)

lemma fireEvent_no_handlers:
  "handlers_of C evt = [] \<Longrightarrow> fireEvent C evt m w = (True, m, w)"
  by (simp add: fireEvent_def)

section \<open>The paths of save\<close>

lemma after_persist_props:
  "after_persist C evt m w = (r, m', w') \<Longrightarrow>
     r = Returned True \<and> quiet w w' \<and> exists m' = exists m \<and> p_deferred m' = p_deferred m
       \<and> p_dirty m' = [] \<and> original m' = attributes m' \<and> wasRecentlyCreated m' = wasRecentlyCreated m"
  unfolding after_persist_def
  by (auto split: prod.splits simp: syncOriginal_def dest!: fireEvent_props intro: quiet_trans)

definition is_insert :: "op \<Rightarrow> bool" where
  "is_insert c = (case c of Insert t r \<Rightarrow> True | InsertReturning t r pk \<Rightarrow> True | _ \<Rightarrow> False)"

lemma fold_add_where: "fold add_where ps q = q\<lparr> wheres := wheres q @ ps \<rparr>"
  by (induction ps arbitrary: q) (simp_all add: add_where_def)

lemma Model_query_fields [simp]:
  "query (Model_query C) = \<lparr> from_table = getTableName C, wheres = concat (map snd (globalScopes C)) \<rparr>"
  "modelClass (Model_query C) = Some C"
  "eagerLoad (Model_query C) = []"
  by (simp_all add: Model_query_def new_QueryBuilder_def fold_add_where)

lemma insertGetId_props:
  "QueryBuilder_insertGetId (Model_query C) data w = (r, w1) \<Longrightarrow>
     log w1 = log w @ [InsertReturning (getTableName C) data (primaryKey C)] \<and> sys w1 = sys w
       \<and> fired w1 = fired w \<and> failing w1 = failing w \<and> registry w1 = registry w"
  by (auto simp: QueryBuilder_insertGetId_def
      engine_insert_returning_def issue_def Let_def
      split: if_splits prod.splits outcome.splits list.splits jsval.splits)

lemma insert_props:
  "QueryBuilder_insert (Model_query C) data w = (r, w1) \<Longrightarrow>
     log w1 = log w @ [Insert (getTableName C) data] \<and> sys w1 = sys w
       \<and> fired w1 = fired w \<and> failing w1 = failing w \<and> registry w1 = registry w"
  by (auto simp: QueryBuilder_insert_def engine_insert_def issue_def split: if_splits)

lemma update_props:
  "QueryBuilder_update b data w = (r, w1) \<Longrightarrow>
     log w1 = log w @ [Update (query b) data] \<and> sys w1 = sys w
       \<and> fired w1 = fired w \<and> failing w1 = failing w \<and> registry w1 = registry w"
  by (auto simp: QueryBuilder_update_def engine_update_def issue_def split: if_splits)

lemma stamp_new_fields [simp]:
  "exists (stamp_new C w m) = exists m"
  "p_deferred (stamp_new C w m) = p_deferred m"
  "original (stamp_new C w m) = original m"
  by (simp_all add: stamp_new_def Let_def)

lemma stamp_update_fields [simp]:
  "exists (stamp_update C w m) = exists m"
  "p_deferred (stamp_update C w m) = p_deferred m"
  "original (stamp_update C w m) = original m"
  by (simp_all add: stamp_update_def)

lemma tracked_stamp_update: "tracked m \<Longrightarrow> p_deferred m = None \<Longrightarrow> tracked (stamp_update C w m)"
  by (simp add: stamp_update_def tracked_setAttribute)

text \<open>The insert block either throws after its one call, or succeeds after it.\<close>

lemma insert_new_props:
  assumes "insert_new C m2 w2 = (r, m', w')" and "\<not> exists m2" and "p_deferred m2 = None"
  shows "(\<exists>c. log w' = log w2 @ [c] \<and> is_insert c) \<and>
         (((\<exists>err. r = Threw err) \<and> \<not> exists m' \<and> p_deferred m' = None \<and> original m' = original m2)
          \<or> (r = Returned True \<and> exists m' \<and> p_deferred m' = None \<and> p_dirty m' = []
               \<and> original m' = attributes m'))"
proof (cases "incrementing C")
  case True
  obtain r3 w3 where e3: "QueryBuilder_insertGetId (Model_query C) (attributes (stamp_new C w2 m2)) w2 = (r3, w3)"
    by force
  note p3 = insertGetId_props [OF e3]
  show ?thesis
  proof (cases r3)
    case (Threw err)
    then have "r = Threw err" "m' = stamp_new C w2 m2" "w' = w3"
      using assms(1) True e3 by (simp_all add: insert_new_def)
    then show ?thesis
      using p3 assms(2,3) by (simp add: is_insert_def)
  next
    case (Returned ident)
    then have "after_persist C ''created''
        ((Model_setAttribute C w3 (primaryKey C) ident (stamp_new C w2 m2))
           \<lparr> exists := True, wasRecentlyCreated := True \<rparr>) w3 = (r, m', w')"
      using assms(1) True e3 by (simp add: insert_new_def)
    from after_persist_props [OF this] show ?thesis
      using p3 assms(3) by (auto simp: is_insert_def dest: quiet_fields)
  qed
next
  case False
  obtain r3 w3 where e3: "QueryBuilder_insert (Model_query C) (attributes (stamp_new C w2 m2)) w2 = (r3, w3)"
    by force
  note p3 = insert_props [OF e3]
  show ?thesis
  proof (cases r3)
    case (Threw err)
    then have "r = Threw err" "m' = stamp_new C w2 m2" "w' = w3"
      using assms(1) False e3 by (simp_all add: insert_new_def)
    then show ?thesis
      using p3 assms(2,3) by (simp add: is_insert_def)
  next
    case (Returned u)
    then have "after_persist C ''created''
        ((stamp_new C w2 m2)\<lparr> exists := True, wasRecentlyCreated := True \<rparr>) w3 = (r, m', w')"
      using assms(1) False e3 by (simp add: insert_new_def)
    from after_persist_props [OF this] show ?thesis
      using p3 assms(3) by (auto simp: is_insert_def dest: quiet_fields)
  qed
qed

text \<open>The update block sends at most one call, an update; it throws after that call or
  succeeds.\<close>

lemma update_dirty_props:
  assumes "update_dirty C m2 w2 = (r, m', w')" and "exists m2" and "p_deferred m2 = None"
  shows "(log w' = log w2 \<or>
           log w' = log w2 @ [Update \<lparr> from_table = getTableName C,
                wheres = concat (map snd (globalScopes C)) @
                         [Where (primaryKey C) (getKey C (stamp_update C w2 m2))] \<rparr>
              (updateData (stamp_update C w2 m2))]) \<and>
         (((\<exists>err. r = Threw err) \<and> m' = stamp_update C w2 m2)
          \<or> (r = Returned True \<and> exists m' \<and> p_deferred m' = None \<and> p_dirty m' = []
               \<and> original m' = attributes m'))"
proof (cases "updateData (stamp_update C w2 m2) = []")
  case True
  then have "after_persist C ''updated'' (stamp_update C w2 m2) w2 = (r, m', w')"
    using assms(1) by (simp add: update_dirty_def)
  from after_persist_props [OF this] show ?thesis
    using assms(2,3) by (auto dest: quiet_fields)
next
  case False
  let ?b = "QueryBuilder_where (primaryKey C) (getKey C (stamp_update C w2 m2)) (Model_query C)"
  obtain r3 w3 where e3: "QueryBuilder_update ?b (updateData (stamp_update C w2 m2)) w2 = (r3, w3)"
    by force
  have q: "query ?b = \<lparr> from_table = getTableName C,
      wheres = concat (map snd (globalScopes C)) @ [Where (primaryKey C) (getKey C (stamp_update C w2 m2))] \<rparr>"
    by (simp add: QueryBuilder_where_def add_where_def)
  note p3 = update_props [OF e3, unfolded q]
  show ?thesis
  proof (cases r3)
    case (Threw err)
    then have "r = Threw err" "m' = stamp_update C w2 m2" "w' = w3"
      using assms(1) False e3 by (simp_all add: update_dirty_def)
    then show ?thesis
      using p3 by simp
  next
    case (Returned n)
    then have "after_persist C ''updated'' (stamp_update C w2 m2) w3 = (r, m', w')"
      using assms(1) False e3 by (simp add: update_dirty_def)
    from after_persist_props [OF this] show ?thesis
      using p3 assms(2,3) by (auto dest: quiet_fields)
  qed
qed

text \<open>The pre-action hooks of a path: the first event, then \<^verbatim>\<open>saving\<close>.\<close>

lemma pre_hooks_cases:
  assumes "(case fireEvent C evt m w of
              (False, m1, w1) \<Rightarrow> (Returned False, m1, w1)
            | (True, m1, w1) \<Rightarrow>
                (case fireEvent C ''saving'' m1 w1 of
                   (False, m2, w2) \<Rightarrow> (Returned False, m2, w2)
                 | (True, m2, w2) \<Rightarrow> body m2 w2)) = (r, m', w')"
    and "p_deferred m = None"
  shows "(r = Returned False \<and> quiet w w' \<and> exists m' = exists m \<and> p_deferred m' = None
            \<and> original m' = original m \<and> (tracked m \<longrightarrow> tracked m'))
         \<or> (\<exists>m2 w2. body m2 w2 = (r, m', w') \<and> quiet w w2 \<and> exists m2 = exists m
               \<and> p_deferred m2 = None \<and> original m2 = original m \<and> (tracked m \<longrightarrow> tracked m2))"
proof -
  obtain r1 m1 w1 where e1: "fireEvent C evt m w = (r1, m1, w1)"
    by (metis prod_cases3)
  note p1 = fireEvent_props [OF e1]
  have t1: "tracked m \<Longrightarrow> tracked m1"
    using fireEvent_tracked [OF e1] assms(2) by simp
  show ?thesis
  proof (cases r1)
    case False
    then show ?thesis
      using assms e1 p1 t1 by auto
  next
    case True
    obtain r2 m2 w2 where e2: "fireEvent C ''saving'' m1 w1 = (r2, m2, w2)"
      by (metis prod_cases3)
    note p2 = fireEvent_props [OF e2]
    have t2: "tracked m \<Longrightarrow> tracked m2"
      using fireEvent_tracked [OF e2] t1 p1 assms(2) by simp
    have q2: "quiet w w2"
      using p1 p2 by (blast intro: quiet_trans)
    show ?thesis
    proof (cases r2)
      case False
      then show ?thesis
        using assms e1 e2 p1 p2 q2 t2 True by auto
    next
      case r2: True
      then have "body m2 w2 = (r, m', w')"
        using assms(1) e1 e2 True by simp
      then show ?thesis
        using p1 p2 q2 t2 assms(2) by auto
    qed
  qed
qed

text \<open>Every run of \<open>Model_save\<close> takes one of five paths: nothing to do, aborted by a
  pre-action hook, thrown by the engine, inserted, updated.\<close>

lemma Model_save_paths [consumes 1, case_names unchanged aborted threw inserted updated]:
  assumes "Model_save C m w = (r, m', w')"
  obtains
    "exists m" "\<not> isDirty (Model_initialize C w m)" "r = Returned True"
      "m' = Model_initialize C w m" "w' = w"
  | "r = Returned False" "quiet w w'" "exists m' = exists m" "p_deferred m' = None"
      "original m' = original (Model_initialize C w m)"
      "exists m \<Longrightarrow> isDirty (Model_initialize C w m)" "tracked m \<Longrightarrow> tracked m'"
  | err c where "r = Threw err" "log w' = log w @ [c]" "exists m' = exists m" "p_deferred m' = None"
      "original m' = original (Model_initialize C w m)"
      "exists m \<Longrightarrow> isDirty (Model_initialize C w m)" "tracked m \<Longrightarrow> tracked m'"
      "if exists m then \<exists>q d. c = Update q d else is_insert c"
  | c where "\<not> exists m" "r = Returned True" "exists m'" "p_deferred m' = None" "p_dirty m' = []"
      "original m' = attributes m'" "log w' = log w @ [c]" "is_insert c"
  | "exists m" "isDirty (Model_initialize C w m)" "r = Returned True" "exists m'"
      "p_deferred m' = None" "p_dirty m' = []" "original m' = attributes m'"
      "log w' = log w \<or> (\<exists>q d. log w' = log w @ [Update q d])"
proof -
  let ?m0 = "Model_initialize C w m"
  have t0: "tracked m \<Longrightarrow> tracked ?m0"
    by (rule tracked_initialize)
  show ?thesis
  proof (cases "exists m")
    case False
    then have "(case fireEvent C ''creating'' ?m0 w of
                  (False, m1, w1) \<Rightarrow> (Returned False, m1, w1)
                | (True, m1, w1) \<Rightarrow>
                    (case fireEvent C ''saving'' m1 w1 of
                       (False, m2, w2) \<Rightarrow> (Returned False, m2, w2)
                     | (True, m2, w2) \<Rightarrow> insert_new C m2 w2)) = (r, m', w')"
      using assms by (simp add: Model_save_def)
    from pre_hooks_cases [OF this initialize_fields(2)] show ?thesis
    proof (elim disjE exE conjE)
      assume a: "r = Returned False" "quiet w w'" "exists m' = exists ?m0" "p_deferred m' = None"
        "original m' = original ?m0"
      show ?thesis
        by (rule that(2); simp add: a False tracked_def)
    next
      fix m2 w2
      assume b: "insert_new C m2 w2 = (r, m', w')" and q: "quiet w w2" and
        m2: "exists m2 = exists ?m0" "p_deferred m2 = None" "original m2 = original ?m0"
      have l2: "log w2 = log w"
        using quiet_fields [OF q] by simp
      have nex: "\<not> exists m2"
        using m2 False by simp
      from insert_new_props [OF b nex m2(2)] obtain c where
        c: "log w' = log w @ [c]" "is_insert c" and
        alt: "((\<exists>err. r = Threw err) \<and> \<not> exists m' \<and> p_deferred m' = None \<and> original m' = original m2)
          \<or> (r = Returned True \<and> exists m' \<and> p_deferred m' = None \<and> p_dirty m' = []
               \<and> original m' = attributes m')"
        unfolding l2 by blast
      from alt show ?thesis
      proof (elim disjE conjE exE)
        fix err
        assume t: "r = Threw err" "\<not> exists m'" "p_deferred m' = None" "original m' = original m2"
        show ?thesis
          by (rule that(3) [of err c]; simp add: t c m2 False tracked_def)
      next
        assume s: "r = Returned True" "exists m'" "p_deferred m' = None" "p_dirty m' = []"
          "original m' = attributes m'"
        show ?thesis
          by (rule that(4) [of c]; simp add: s c False)
      qed
    qed
  next
    case True
    note ex = this
    show ?thesis
    proof (cases "isDirty ?m0")
      case False
      have "r = Returned True" "m' = ?m0" "w' = w"
        using assms ex False by (auto simp: Model_save_def)
      then show ?thesis
        using that(1) ex False by simp
    next
      case True
      then have "(case fireEvent C ''updating'' ?m0 w of
                    (False, m1, w1) \<Rightarrow> (Returned False, m1, w1)
                  | (True, m1, w1) \<Rightarrow>
                      (case fireEvent C ''saving'' m1 w1 of
                         (False, m2, w2) \<Rightarrow> (Returned False, m2, w2)
                       | (True, m2, w2) \<Rightarrow> update_dirty C m2 w2)) = (r, m', w')"
        using assms ex by (simp add: Model_save_def)
      from pre_hooks_cases [OF this initialize_fields(2)] show ?thesis
      proof (elim disjE exE conjE)
        assume a: "r = Returned False" "quiet w w'" "exists m' = exists ?m0" "p_deferred m' = None"
          "original m' = original ?m0" and ta: "tracked ?m0 \<longrightarrow> tracked m'"
        show ?thesis
          by (rule that(2); simp add: a True ta t0)
      next
        fix m2 w2
        assume b: "update_dirty C m2 w2 = (r, m', w')" and q: "quiet w w2" and
          m2: "exists m2 = exists ?m0" "p_deferred m2 = None" "original m2 = original ?m0" and
          tm: "tracked ?m0 \<longrightarrow> tracked m2"
        have l2: "log w2 = log w"
          using quiet_fields [OF q] by simp
        have ex2: "exists m2"
          using m2 ex by simp
        have t3: "tracked m \<Longrightarrow> tracked (stamp_update C w2 m2)"
          using t0 tm m2 by (simp add: tracked_stamp_update)
        from update_dirty_props [OF b ex2 m2(2)] have
          lg: "log w' = log w \<or> (\<exists>q d. log w' = log w @ [Update q d])" and
          alt: "((\<exists>err. r = Threw err) \<and> m' = stamp_update C w2 m2)
            \<or> (r = Returned True \<and> exists m' \<and> p_deferred m' = None \<and> p_dirty m' = []
                 \<and> original m' = attributes m')"
          unfolding l2 by blast+
        from alt show ?thesis
        proof (elim disjE conjE exE)
          fix err
          assume t: "r = Threw err" "m' = stamp_update C w2 m2"
          have "updateData (stamp_update C w2 m2) \<noteq> []"
          proof
            assume "updateData (stamp_update C w2 m2) = []"
            then have "after_persist C ''updated'' (stamp_update C w2 m2) w2 = (r, m', w')"
              using b by (simp add: update_dirty_def)
            from after_persist_props [OF this] show False
              using t by simp
          qed
          then obtain r3 where "QueryBuilder_update
              (QueryBuilder_where (primaryKey C) (getKey C (stamp_update C w2 m2)) (Model_query C))
              (updateData (stamp_update C w2 m2)) w2 = (r3, w')"
            using b t by (auto simp: update_dirty_def split: prod.splits outcome.splits dest: after_persist_props)
          from update_props [OF this] obtain q d where c: "log w' = log w @ [Update q d]"
            unfolding l2 by blast
          show ?thesis
            by (rule that(3) [of err "Update q d"]; simp add: t c m2 ex True t3)
        next
          assume s: "r = Returned True" "exists m'" "p_deferred m' = None" "p_dirty m' = []"
            "original m' = attributes m'"
          show ?thesis
            by (rule that(5); simp add: s ex True lg)
        qed
      qed
    qed
  qed
qed

lemma tracked_save: "Model_save C m w = (r, m', w') \<Longrightarrow> tracked m \<Longrightarrow> tracked m'"
proof (induction rule: Model_save_paths)
  case unchanged
  then show ?case by (simp add: tracked_initialize)
next
  case aborted
  then show ?case by simp
next
  case (threw err c)
  then show ?case by simp
next
  case (inserted c)
  then show ?case by (simp add: tracked_def)
next
  case updated
  then show ?case by (simp add: tracked_def)
qed

lemma tracked_new_Model: "tracked (new_Model attrs)"
  by (simp add: tracked_def new_Model_def)

section \<open>Example models\<close>

definition User :: model_class where
  "User = Model_base\<lparr> className := ''User'', static_table := Some ''users'' \<rparr>"

lemma User_fields [simp]:
  "className User = ''User''" "static_table User = Some ''users''" "primaryKey User = ''id''"
  "keyType User = ''int''" "incrementing User" "timestamps User" "\<not> softDeletes User"
  "casts User = []" "events User = []" "globalScopes User = []" "timezone User = ''UTC''"
  "relationMethods User = []"
  by (simp_all add: User_def Model_base_def)

lemma example_platform_fields [simp]:
  "JSON_parse example_platform = (\<lambda>v. None)"
  "JSON_stringify example_platform = (\<lambda>v. JUndefined)"
  "moment_format example_platform = (\<lambda>tz v. None)"
  "ObjectToString example_platform = (\<lambda>v. ''[object Object]'')"
  "clock example_platform = 1000"
  "zoned example_platform = (\<lambda>tz t. t)"
  "config_timezone example_platform = None"
  by (simp_all add: example_platform_def)

lemma empty_world_fields [simp]:
  "tables empty_world = []" "log empty_world = []" "failing empty_world = (\<lambda>c. False)"
  "fired empty_world = []" "registry empty_world = []" "sys empty_world = example_platform"
  by (simp_all add: empty_world_def)

lemmas model_eval =
  Model_save_def insert_new_def update_dirty_def stamp_update_def updateData_def
  Model_initialize_def Model_setAttribute_def syncOriginal_def new_Model_def
  fireEvent_def handlers_of_def after_persist_def stamp_new_def getCurrentTimestamp_def
  timezone_of_def getKey_def property_def isDirty_def getDirty_def
  QueryBuilder_insertGetId_def QueryBuilder_insert_def QueryBuilder_update_def
  QueryBuilder_where_def add_where_def
  engine_insert_returning_def engine_insert_def engine_update_def issue_def rows_of_def
  column_def next_key_def merge_row_def matches_def getTableName_def Let_def

lemma save_new_user:
  "fst (Model_save User (new_Model [(''name'', JStr ''A'')]) empty_world) = Returned True"
  by (simp add: model_eval)

section \<open>Claim C4: saving a clean entity does nothing\<close>

text \<open>
  Claim C4. When the entity exists and its dirty set is empty, \<^verbatim>\<open>save()\<close> returns true
  and leaves the world as it was: nothing is added to the log of engine calls and no
  handler runs. A second \<^verbatim>\<open>save()\<close> right after a successful one returns true with
  the entity and the world unchanged.
\<close>

theorem save_clean_entity_is_noop:
  "(exists m \<and> p_dirty m = [] \<longrightarrow>
      Model_save C m w = (Returned True, Model_initialize C w m, w)) \<and>
   (Model_save C m w = (Returned True, m', w') \<longrightarrow>
      Model_save C m' w' = (Returned True, m', w'))"
proof (intro conjI impI)
  assume "exists m \<and> p_dirty m = []"
  then show "Model_save C m w = (Returned True, Model_initialize C w m, w)"
    by (simp add: Model_save_def isDirty_def initialize_dirty_empty)
next
  assume first: "Model_save C m w = (Returned True, m', w')"
  then have "exists m' \<and> p_dirty m' = [] \<and> p_deferred m' = None"
  proof (cases rule: Model_save_paths)
    case unchanged
    then show ?thesis by (simp add: isDirty_def)
  qed simp_all
  then show "Model_save C m' w' = (Returned True, m', w')"
    by (simp add: Model_save_def isDirty_def initialize_idem)
qed

theorem save_clean_entity_is_noop_witness:
  "exists (persisted [(''id'', JNum 1)]) \<and> p_dirty (persisted [(''id'', JNum 1)]) = [] \<and>
   Model_save User (persisted [(''id'', JNum 1)]) empty_world =
     (Returned True, persisted [(''id'', JNum 1)], empty_world) \<and>
   fst (Model_save User (new_Model [(''name'', JStr ''A'')]) empty_world) = Returned True \<and>
   fst (Model_save User
          (fst (snd (Model_save User (new_Model [(''name'', JStr ''A'')]) empty_world)))
          (snd (snd (Model_save User (new_Model [(''name'', JStr ''A'')]) empty_world)))) = Returned True"
proof -
  let ?first = "Model_save User (new_Model [(''name'', JStr ''A'')]) empty_world"
  have p: "exists (persisted [(''id'', JNum 1)]) \<and> p_dirty (persisted [(''id'', JNum 1)]) = []"
    by (simp add: persisted_def)
  have i: "Model_initialize User empty_world (persisted [(''id'', JNum 1)]) = persisted [(''id'', JNum 1)]"
    by (simp add: initialize_idem persisted_def)
  have f: "?first = (Returned True, fst (snd ?first), snd (snd ?first))"
    using save_new_user by (metis prod.collapse)
  show ?thesis
    using save_clean_entity_is_noop [of "persisted [(''id'', JNum 1)]" User empty_world]
      save_clean_entity_is_noop [of "new_Model [(''name'', JStr ''A'')]" User empty_world
        "fst (snd ?first)" "snd (snd ?first)"]
      p i f save_new_user
    by simp
qed

section \<open>Claim C3: a successful save leaves the entity clean\<close>

text \<open>
  Claim C3, as stated, fails. \<^verbatim>\<open>BulkFactory.create\<close> (Factory.js) builds each entity with
  \<^verbatim>\<open>new this.model()\<close>, \<^verbatim>\<open>model.fill(...)\<close> and then \<^verbatim>\<open>model.exists = true\<close>: the
  attributes were assigned while the entity did not exist, so nothing is marked dirty and
  \<open>original\<close> is still empty. On such an entity \<^verbatim>\<open>save()\<close> returns true on the path of
  a clean entity, without \<^verbatim>\<open>syncOriginal\<close>.
\<close>

definition bulk_made :: model where
  "bulk_made = (fold (\<lambda>(k, v). Model_setAttribute User empty_world k v)
                  [(''name'', JStr ''A''), (''id'', JNum 7)] (new_Model []))\<lparr> exists := True \<rparr>"



lemma tracked_persisted: "tracked (persisted r)"
  by (simp add: tracked_def persisted_def)

definition users_world :: world where
  "users_world = empty_world\<lparr> tables := [(''users'', [[(''id'', JNum 1), (''name'', JStr ''A'')]])] \<rparr>"

lemma users_world_fields [simp]:
  "tables users_world = [(''users'', [[(''id'', JNum 1), (''name'', JStr ''A'')]])]"
  "log users_world = []" "failing users_world = (\<lambda>c. False)"
  "fired users_world = []" "registry users_world = []" "sys users_world = example_platform"
  by (simp_all add: users_world_def)

definition renamed_user :: model where
  "renamed_user = Model_setAttribute User users_world ''name'' (JStr ''B'')
                    (persisted [(''id'', JNum 1), (''name'', JStr ''A'')])"

lemma save_renamed_user:
  "Model_save User renamed_user users_world =
     (Returned True,
      \<lparr> attributes = [(''id'', JNum 1), (''name'', JStr ''B''), (''updated_at'', JDate 1000)],
        original = [(''id'', JNum 1), (''name'', JStr ''B''), (''updated_at'', JDate 1000)],
        exists = True, wasRecentlyCreated = False, p_dirty = [], p_deferred = None \<rparr>,
      users_world\<lparr> tables := [(''users'', [[(''id'', JNum 1), (''name'', JStr ''B''), (''updated_at'', JDate 1000)]])],
                    log := [Update \<lparr> from_table = ''users'', wheres = [Where ''id'' (JNum 1)] \<rparr>
                              [(''name'', JStr ''B''), (''updated_at'', JDate 1000)]] \<rparr>)"
  by (simp add: model_eval renamed_user_def persisted_def users_world_def empty_world_def)


section \<open>Claim C9: hydrated entities exist and are clean\<close>

definition clean :: "model \<Rightarrow> bool" where
  "clean m = (exists m \<and> p_dirty m = [] \<and> original m = attributes m \<and> p_deferred m = None)"

lemma hydrate_clean: "clean (state (hydrate C w r))"
proof (cases "r = []")
  case True
  then show ?thesis
    by (simp add: clean_def hydrate_def new_Model_def Model_initialize_def)
next
  case False
  then have "p_deferred ((new_Model r)\<lparr> exists := True \<rparr>) \<noteq> None"
    by (simp add: new_Model_def)
  from initialize_clean [OF this] show ?thesis
    by (simp add: clean_def hydrate_def)
qed

lemma state_assign_related [simp]: "state (assign_related C w n rel grouped e) = state e"
  by (simp add: assign_related_def Let_def)

lemma list_all_clean_states:
  "map state es = map state (map (hydrate C w) rows) \<Longrightarrow> list_all (\<lambda>e. clean (state e)) es"
proof -
  assume eq: "map state es = map state (map (hydrate C w) rows)"
  have "list_all clean (map state (map (hydrate C w) rows))"
    by (simp add: list_all_iff hydrate_clean)
  then have "list_all clean (map state es)"
    using eq by simp
  then show ?thesis
    by (simp add: list_all_iff)
qed

lemma states_get_all:
  "fst (QueryBuilder_get b w) = Returned es \<Longrightarrow> list_all (\<lambda>e. clean (state e)) es"
  "fst (loadRelations b models w) = Returned es \<Longrightarrow> map state es = map state models"
  "fst (loadRelations_each b names models w) = Returned es \<Longrightarrow> map state es = map state models"
  "fst (loadRelation b models relationName w) = Returned es \<Longrightarrow> map state es = map state models"
proof (induction b w and b models w and b names models w and b models relationName w
    arbitrary: es and es and es and es
    rule: QueryBuilder_get_loadRelations_loadRelations_each_loadRelation.induct)
  case (1 b w)
  obtain r w1 where sel: "engine_select (softDeleteFilter b (query b)) w = (r, w1)"
    by force
  show ?case
  proof (cases r)
    case (Threw err)
    then show ?thesis
      using sel "1.prems" by (subst (asm) QueryBuilder_get.simps) simp
  next
    case (Returned rows)
    show ?thesis
    proof (cases "modelClass b")
      case None
      then show ?thesis
        using sel Returned "1.prems"
        by (subst (asm) QueryBuilder_get.simps) (auto split: if_splits)
    next
      case (Some C)
      show ?thesis
      proof (cases "eagerLoad b = []")
        case True
        then have "es = map (hydrate C w1) rows"
          using sel Returned Some "1.prems" by (subst (asm) QueryBuilder_get.simps) simp
        then show ?thesis
          by (simp add: list_all_iff hydrate_clean)
      next
        case False
        then have "fst (loadRelations b (map (hydrate C w1) rows) w1) = Returned es"
          using sel Returned Some "1.prems" by (subst (asm) QueryBuilder_get.simps) simp
        from "1.IH" [OF sel [symmetric] Returned Some False this] show ?thesis
          by (rule list_all_clean_states)
      qed
    qed
  qed
next
  case (2 b models w)
  show ?case
  proof (cases "models = []")
    case True
    then show ?thesis
      using "2.prems" by (subst (asm) loadRelations.simps) simp
  next
    case False
    then have "fst (loadRelations_each b (eagerLoad b) models w) = Returned es"
      using "2.prems" by (subst (asm) loadRelations.simps) simp
    from "2.IH" [OF False this] show ?thesis .
  qed
next
  case (3 b models w)
  then show ?case
    using loadRelations_each.simps(1) [of b models w] by simp
next
  case (4 b relationName names models w)
  obtain r w1 where one: "loadRelation b models relationName w = (r, w1)"
    by force
  show ?case
  proof (cases r)
    case (Threw err)
    then show ?thesis
      using one "4.prems" by (subst (asm) loadRelations_each.simps) simp
  next
    case (Returned models1)
    have s1: "map state models1 = map state models"
      using "4.IH"(1) [of models1] one Returned by simp
    have "fst (loadRelations_each b names models1 w1) = Returned es"
      using one Returned "4.prems" by (subst (asm) loadRelations_each.simps) simp
    from "4.IH"(2) [OF one [symmetric] Returned this] show ?thesis
      using s1 by simp
  qed
next
  case (5 b models relationName w)
  show ?case
    using "5.prems"
    by (subst (asm) loadRelation.simps)
      (auto split: option.splits if_splits sum.splits prod.splits outcome.splits simp: comp_def)
qed


lemma the_model_state:
  "map state models = [state e] \<Longrightarrow> state (the_model e models) = state e"
  by (cases models) (simp_all add: the_model_def)

lemma first_clean:
  assumes "fst (QueryBuilder_first b w) = Returned (Some e)"
  shows "clean (state e)"
proof -
  obtain r w1 where call: "engine_first (softDeleteFilter b (query b)) w = (r, w1)"
    by force
  from assms call obtain row C where
    found: "r = Returned (Some row)" "modelClass b = Some C"
    by (auto simp: QueryBuilder_first_def split: outcome.splits option.splits)
  show ?thesis
  proof (cases "eagerLoad b = []")
    case True
    then have "e = hydrate C w1 row"
      using assms call found by (simp add: QueryBuilder_first_def)
    then show ?thesis
      by (simp add: hydrate_clean)
  next
    case False
    then obtain models where
      loaded: "fst (loadRelations b [hydrate C w1 row] w1) = Returned models" and
      e: "e = the_model (hydrate C w1 row) models"
      using assms call found
      by (auto simp: QueryBuilder_first_def split: prod.splits outcome.splits)
    from states_get_all(2) [OF loaded] have "state e = state (hydrate C w1 row)"
      unfolding e by (intro the_model_state) simp
    then show ?thesis
      by (simp add: hydrate_clean)
  qed
qed

lemma find_clean:
  assumes "fst (QueryBuilder_find b ident w) = Returned (Some (FoundModel e))"
  shows "clean (state e)"
proof -
  obtain r w1 where call:
    "engine_first (softDeleteFilter b (add_where (Where ''id'' ident) (query b))) w = (r, w1)"
    by force
  from assms call obtain row C where
    found: "r = Returned (Some row)" "modelClass b = Some C"
    by (auto simp: QueryBuilder_find_def split: outcome.splits option.splits)
  show ?thesis
  proof (cases "eagerLoad b = []")
    case True
    then have "e = hydrate C w1 row"
      using assms call found by (simp add: QueryBuilder_find_def)
    then show ?thesis
      by (simp add: hydrate_clean)
  next
    case False
    then obtain models where
      loaded: "fst (loadRelations b [hydrate C w1 row] w1) = Returned models" and
      e: "e = the_model (hydrate C w1 row) models"
      using assms call found
      by (auto simp: QueryBuilder_find_def split: prod.splits outcome.splits)
    from states_get_all(2) [OF loaded] have "state e = state (hydrate C w1 row)"
      unfolding e by (intro the_model_state) simp
    then show ?thesis
      by (simp add: hydrate_clean)
  qed
qed

text \<open>A mutation of a clean entity marks it dirty, and the save that follows sends
  nothing or one update, never an insert.\<close>

lemma mutated_clean_is_dirty: "clean m \<Longrightarrow> isDirty (Model_setAttribute C w k v m)"
  by (simp add: clean_def isDirty_def setAttribute_dirty)

lemma existing_saves_by_update:
  assumes "exists m"
  shows "log (snd (snd (Model_save C m w))) = log w \<or>
         (\<exists>q d. log (snd (snd (Model_save C m w))) = log w @ [Update q d])"
proof -
  obtain r m' w' where s: "Model_save C m w = (r, m', w')"
    by (metis prod_cases3)
  from s have "log w' = log w \<or> (\<exists>q d. log w' = log w @ [Update q d])"
  proof (cases rule: Model_save_paths)
    case aborted
    then show ?thesis by (simp add: quiet_fields)
  next
    case (threw err c)
    then show ?thesis using assms by auto
  next
    case (inserted c)
    then show ?thesis using assms by simp
  qed simp_all
  then show ?thesis
    using s by simp
qed

lemma update_dirty_log:
  assumes "updateData (stamp_update C w m) \<noteq> []"
  shows "log (snd (snd (update_dirty C m w))) =
           log w @ [Update \<lparr> from_table = getTableName C,
                      wheres = concat (map snd (globalScopes C)) @
                               [Where (primaryKey C) (getKey C (stamp_update C w m))] \<rparr>
                    (updateData (stamp_update C w m))]"
proof -
  let ?b = "QueryBuilder_where (primaryKey C) (getKey C (stamp_update C w m)) (Model_query C)"
  obtain r3 w3 where e3: "QueryBuilder_update ?b (updateData (stamp_update C w m)) w = (r3, w3)"
    by force
  have q: "query ?b = \<lparr> from_table = getTableName C,
      wheres = concat (map snd (globalScopes C)) @ [Where (primaryKey C) (getKey C (stamp_update C w m))] \<rparr>"
    by (simp add: QueryBuilder_where_def add_where_def)
  note p3 = update_props [OF e3, unfolded q]
  show ?thesis
  proof (cases r3)
    case (Threw err)
    then show ?thesis
      using assms e3 p3 by (simp add: update_dirty_def)
  next
    case (Returned n)
    obtain r4 m4 w4 where e4: "after_persist C ''updated'' (stamp_update C w m) w3 = (r4, m4, w4)"
      by (metis prod_cases3)
    from after_persist_props [OF e4] have "log w4 = log w3"
      by (simp add: quiet_fields)
    then show ?thesis
      using assms e3 e4 p3 Returned by (simp add: update_dirty_def)
  qed
qed

lemma updateData_stamped:
  "timestamps C \<Longrightarrow> exists m \<Longrightarrow> p_deferred m = None \<Longrightarrow> updateData (stamp_update C w m) \<noteq> []"
proof -
  assume a: "timestamps C" "exists m" "p_deferred m = None"
  then have "''updated_at'' \<in> set (p_dirty (stamp_update C w m))"
    by (simp add: stamp_update_def setAttribute_dirty)
  then have "''updated_at'' \<in> fst ` set (getDirty (stamp_update C w m))"
    by (simp add: getDirty_def image_comp comp_def)
  then have "''updated_at'' \<in> fst ` set (updateData (stamp_update C w m))"
    by (auto simp: updateData_def AList.delete_eq)
  then show ?thesis
    by auto
qed

text \<open>
  Claim C9. Every entity returned by \<^verbatim>\<open>get()\<close>, \<^verbatim>\<open>first()\<close> or \<^verbatim>\<open>find()\<close> exists, has an
  empty dirty set, an \<open>original\<close> equal to its \<open>attributes\<close>, and no deferred attributes
  left. After a \<^verbatim>\<open>setAttribute\<close> it is dirty, and the \<^verbatim>\<open>save()\<close> that follows sends
  nothing (a hook aborted) or one update, never an insert; on a class with timestamps and
  no \<^verbatim>\<open>updating\<close> or \<^verbatim>\<open>saving\<close> handler it sends exactly the update keyed by the
  primary key.
\<close>

theorem hydrated_entities_update_on_save:
  assumes "(fst (QueryBuilder_get b w) = Returned es \<and> e \<in> set es)
             \<or> fst (QueryBuilder_first b w) = Returned (Some e)
             \<or> fst (QueryBuilder_find b ident w) = Returned (Some (FoundModel e))"
  shows "clean (state e) \<and>
         isDirty (Model_setAttribute C w1 k v (state e)) \<and>
         (log (snd (snd (Model_save C (Model_setAttribute C w1 k v (state e)) w2))) = log w2 \<or>
          (\<exists>q d. log (snd (snd (Model_save C (Model_setAttribute C w1 k v (state e)) w2))) =
                   log w2 @ [Update q d])) \<and>
         (timestamps C \<and> handlers_of C ''updating'' = [] \<and> handlers_of C ''saving'' = [] \<longrightarrow>
            log (snd (snd (Model_save C (Model_setAttribute C w1 k v (state e)) w2))) =
              log w2 @ [Update \<lparr> from_table = getTableName C,
                          wheres = concat (map snd (globalScopes C)) @
                            [Where (primaryKey C)
                               (getKey C (stamp_update C w2 (Model_setAttribute C w1 k v (state e))))] \<rparr>
                        (updateData (stamp_update C w2 (Model_setAttribute C w1 k v (state e))))])"
proof -
  let ?m = "Model_setAttribute C w1 k v (state e)"
  have c: "clean (state e)"
    using assms states_get_all(1) [of b w es] first_clean [of b w e] find_clean [of b ident w e]
    by (auto simp: list_all_iff)
  then have m: "exists ?m" "p_deferred ?m = None" "isDirty ?m"
    by (simp_all add: mutated_clean_is_dirty) (simp_all add: clean_def)
  have exact: "log (snd (snd (Model_save C ?m w2))) =
      log w2 @ [Update \<lparr> from_table = getTableName C,
                  wheres = concat (map snd (globalScopes C)) @
                    [Where (primaryKey C) (getKey C (stamp_update C w2 ?m))] \<rparr>
                (updateData (stamp_update C w2 ?m))]"
    if h: "timestamps C" "handlers_of C ''updating'' = []" "handlers_of C ''saving'' = []"
  proof -
    have "Model_save C ?m w2 = update_dirty C ?m w2"
      using m h by (simp add: Model_save_def initialize_idem fireEvent_no_handlers)
    then show ?thesis
      using update_dirty_log [OF updateData_stamped [OF h(1) m(1,2)]] by simp
  qed
  show ?thesis
    using c m existing_saves_by_update [OF m(1)] exact by blast
qed


lemma getTableName_User [simp]: "getTableName User = ''users''"
  by (simp add: getTableName_def)

lemma get_users:
  "fst (QueryBuilder_get (Model_query User) users_world) =
     Returned [Entity (persisted [(''id'', JNum 1), (''name'', JStr ''A'')]) []]"
  by (subst QueryBuilder_get.simps)
    (simp add: engine_select_def softDeleteFilter_def issue_def rows_of_def matches_def hydrate_def
      new_Model_def Model_initialize_def Model_setAttribute_def syncOriginal_def persisted_def)

theorem hydrated_entities_update_on_save_witness:
  "fst (QueryBuilder_get (Model_query User) users_world) =
     Returned [Entity (persisted [(''id'', JNum 1), (''name'', JStr ''A'')]) []] \<and>
   clean (persisted [(''id'', JNum 1), (''name'', JStr ''A'')]) \<and>
   isDirty renamed_user \<and>
   log (snd (snd (Model_save User renamed_user users_world))) =
     [Update \<lparr> from_table = ''users'', wheres = [Where ''id'' (JNum 1)] \<rparr>
        [(''name'', JStr ''B''), (''updated_at'', JDate 1000)]]"
proof -
  let ?e = "Entity (persisted [(''id'', JNum 1), (''name'', JStr ''A'')]) []"
  have hyp: "fst (QueryBuilder_get (Model_query User) users_world) = Returned [?e] \<and> ?e \<in> set [?e]"
    by (simp add: get_users)
  have h: "handlers_of User ''updating'' = []" "handlers_of User ''saving'' = []"
    by (simp_all add: handlers_of_def)
  have d: "updateData (stamp_update User users_world renamed_user) =
      [(''name'', JStr ''B''), (''updated_at'', JDate 1000)]"
    by (simp add: updateData_def stamp_update_def renamed_user_def persisted_def getDirty_def
        Model_setAttribute_def getCurrentTimestamp_def property_def)
  have k: "getKey User (stamp_update User users_world renamed_user) = JNum 1"
    by (simp add: stamp_update_def renamed_user_def persisted_def getKey_def
        Model_setAttribute_def getCurrentTimestamp_def property_def)
  show ?thesis
    using hydrated_entities_update_on_save
      [of "Model_query User" users_world "[?e]" ?e JNull User users_world "''name''" "JStr ''B''" users_world]
      hyp h
    by (simp add: renamed_user_def [symmetric] d k getTableName_def)
qed

section \<open>Claim C2: a pre-action hook aborts save only by returning false\<close>

lemma run_handlers_false:
  "h \<in> set hs \<Longrightarrow> \<forall>x. fst (h x) = JBool False \<Longrightarrow> fst (run_handlers C evt hs m w) = False"
  by (induction hs arbitrary: m w) auto

lemma run_handlers_true:
  "\<forall>h\<in>set hs. \<forall>x. fst (h x) \<noteq> JBool False \<Longrightarrow> fst (run_handlers C evt hs m w) = True"
  by (induction hs arbitrary: m w) auto

lemma fireEvent_false:
  "h \<in> set (handlers_of C evt) \<Longrightarrow> \<forall>x. fst (h x) = JBool False \<Longrightarrow> fst (fireEvent C evt m w) = False"
  unfolding fireEvent_def by (rule run_handlers_false)

lemma fireEvent_true:
  "\<forall>h\<in>set (handlers_of C evt). \<forall>x. fst (h x) \<noteq> JBool False \<Longrightarrow> fst (fireEvent C evt m w) = True"
  unfolding fireEvent_def by (rule run_handlers_true)

text \<open>A handler as the documentation writes them: it returns nothing.\<close>

definition silent_handler :: handler where
  "silent_handler m = (JUndefined, [])"

definition Audited :: model_class where
  "Audited = User\<lparr> className := ''Audited'', static_table := Some ''audits'',
      events := [(''creating'', [silent_handler])] \<rparr>"

lemma Audited_fields [simp]:
  "className Audited = ''Audited''" "static_table Audited = Some ''audits''" "primaryKey Audited = ''id''"
  "keyType Audited = ''int''" "incrementing Audited" "timestamps Audited" "\<not> softDeletes Audited"
  "casts Audited = []" "events Audited = [(''creating'', [silent_handler])]"
  "globalScopes Audited = []" "timezone Audited = ''UTC''" "relationMethods Audited = []"
  by (simp_all add: Audited_def)


text \<open>The values that the handlers of one \<^verbatim>\<open>fireEvent\<close> return, in the order of the calls:
  \<^verbatim>\<open>fireEvent\<close> stops after the first handler that returns \<^verbatim>\<open>false\<close>.\<close>

fun handler_results :: "model_class \<Rightarrow> string \<Rightarrow> handler list \<Rightarrow> model \<Rightarrow> world \<Rightarrow> val list" where
  "handler_results C evt [] m w = []"
| "handler_results C evt (h # hs) m w =
     fst (h m) #
     (if fst (h m) = JBool False then []
      else handler_results C evt hs
             (fold (\<lambda>(k, v). Model_setAttribute C w k v) (snd (h m)) m)
             (w\<lparr> fired := fired w @ [evt] \<rparr>))"

text \<open>The values returned by the handlers of the pre-action hooks in one call of
  \<^verbatim>\<open>save()\<close>: those of \<^verbatim>\<open>creating\<close> (new entity) or \<^verbatim>\<open>updating\<close> (existing, dirty entity),
  then, if none of them was \<^verbatim>\<open>false\<close>, those of \<^verbatim>\<open>saving\<close>. A clean existing entity
  fires nothing.\<close>

definition pre_hook_results :: "model_class \<Rightarrow> model \<Rightarrow> world \<Rightarrow> val list" where
  "pre_hook_results C m0 w =
     (let m = Model_initialize C w m0;
          evt = (if exists m then ''updating'' else ''creating'')
      in if exists m \<and> \<not> isDirty m then []
         else (case fireEvent C evt m w of
                 (r1, m1, w1) \<Rightarrow>
                   handler_results C evt (handlers_of C evt) m w @
                   (if r1 then handler_results C ''saving'' (handlers_of C ''saving'') m1 w1 else [])))"

lemma run_handlers_results:
  "fst (run_handlers C evt hs m w) = (JBool False \<notin> set (handler_results C evt hs m w))"
  by (induction hs arbitrary: m w) auto

lemma fireEvent_results:
  "fst (fireEvent C evt m w) = (JBool False \<notin> set (handler_results C evt (handlers_of C evt) m w))"
  unfolding fireEvent_def by (rule run_handlers_results)


text \<open>A handler that vetoes some entities only: it returns \<^verbatim>\<open>false\<close> for an age below 18
  and nothing otherwise.\<close>

definition age_guard :: handler where
  "age_guard m = (case property (attributes m) ''age'' of
                    JNum n \<Rightarrow> if n < 18 then JBool False else JUndefined
                  | _ \<Rightarrow> JUndefined, [])"

definition Member :: model_class where
  "Member = User\<lparr> className := ''Member'', static_table := Some ''members'',
      events := [(''saving'', [silent_handler, age_guard])] \<rparr>"

lemma Member_fields [simp]:
  "className Member = ''Member''" "static_table Member = Some ''members''" "primaryKey Member = ''id''"
  "keyType Member = ''int''" "incrementing Member" "timestamps Member" "\<not> softDeletes Member"
  "casts Member = []" "events Member = [(''saving'', [silent_handler, age_guard])]"
  "globalScopes Member = []" "timezone Member = ''UTC''" "relationMethods Member = []"
  by (simp_all add: Member_def)

lemma pre_hook_results_Member:
  "pre_hook_results Member (new_Model [(''age'', JNum 17)]) empty_world = [JUndefined, JBool False]"
  "pre_hook_results Member (new_Model [(''age'', JNum 30)]) empty_world = [JUndefined, JUndefined]"
  by (simp_all add: pre_hook_results_def model_eval silent_handler_def age_guard_def Let_def)


definition veto_handler :: handler where
  "veto_handler m = (JBool False, [])"

definition Guarded :: model_class where
  "Guarded = User\<lparr> className := ''Guarded'', static_table := Some ''guarded'',
      events := [(''creating'', [veto_handler]), (''deleting'', [veto_handler])] \<rparr>"

lemma Guarded_fields [simp]:
  "className Guarded = ''Guarded''" "static_table Guarded = Some ''guarded''" "primaryKey Guarded = ''id''"
  "keyType Guarded = ''int''" "incrementing Guarded" "timestamps Guarded" "\<not> softDeletes Guarded"
  "casts Guarded = []" "events Guarded = [(''creating'', [veto_handler]), (''deleting'', [veto_handler])]"
  "globalScopes Guarded = []" "timezone Guarded = ''UTC''" "relationMethods Guarded = []"
  by (simp_all add: Guarded_def)

text \<open>\<^verbatim>\<open>delete()\<close> does not look at what the \<^verbatim>\<open>deleting\<close> handlers return: with a handler
  that returns \<^verbatim>\<open>false\<close> the row is deleted all the same and \<^verbatim>\<open>delete()\<close> returns true.\<close>

lemma delete_ignores_deleting_result:
  "handlers_of Guarded ''deleting'' = [veto_handler] \<and>
   fst (Model_delete Guarded (persisted [(''id'', JNum 1)]) empty_world) = Returned True \<and>
   log (snd (snd (Model_delete Guarded (persisted [(''id'', JNum 1)]) empty_world))) =
     [Delete \<lparr> from_table = ''guarded'', wheres = [Where ''id'' (JNum 1)] \<rparr>]"
  by (simp add: Model_delete_def fireEvent_def handlers_of_def veto_handler_def persisted_def
      QueryBuilder_delete_def QueryBuilder_where_def add_where_def engine_delete_def issue_def
      getKey_def property_def getTableName_def)

section \<open>Model.js: relation constructors\<close>

text \<open>\<^verbatim>\<open>fk || `${this.constructor.table}_id`\<close> and \<^verbatim>\<open>lk || this.constructor.primaryKey\<close>: an
  omitted or empty argument takes the default.\<close>

definition or_default :: "string option \<Rightarrow> string \<Rightarrow> string" where
  "or_default given dflt = (case given of None \<Rightarrow> dflt | Some s \<Rightarrow> if s \<noteq> [] then s else dflt)"

definition table_id :: "model_class \<Rightarrow> string" where
  "table_id C = (case static_table C of None \<Rightarrow> ''undefined'' | Some t \<Rightarrow> t) @ ''_id''"

definition hasOne :: "model_class \<Rightarrow> string \<Rightarrow> string option \<Rightarrow> string option \<Rightarrow> relation" where
  "hasOne C relatedName fk lk = \<lparr> kind = HasOne, related = RelatedName relatedName,
      foreignKey = or_default fk (table_id C), localKey = or_default lk (primaryKey C) \<rparr>"

definition hasMany :: "model_class \<Rightarrow> string \<Rightarrow> string option \<Rightarrow> string option \<Rightarrow> relation" where
  "hasMany C relatedName fk lk = \<lparr> kind = HasMany, related = RelatedName relatedName,
      foreignKey = or_default fk (table_id C), localKey = or_default lk (primaryKey C) \<rparr>"

section \<open>The order and item scenario\<close>

definition Item :: model_class where
  "Item = Model_base\<lparr> className := ''Item'', static_table := Some ''items'' \<rparr>"

definition Order :: model_class where
  "Order = Model_base\<lparr> className := ''Order'', static_table := Some ''orders'',
      relationMethods := [(''items'',
         hasMany (Model_base\<lparr> className := ''Order'', static_table := Some ''orders'' \<rparr>)
           ''Item'' (Some ''order_id'') None)] \<rparr>"

definition items_relation :: relation where
  "items_relation = \<lparr> kind = HasMany, related = RelatedName ''Item'',
      foreignKey = ''order_id'', localKey = ''id'' \<rparr>"

lemma Item_fields [simp]:
  "className Item = ''Item''" "static_table Item = Some ''items''" "primaryKey Item = ''id''"
  "\<not> softDeletes Item" "casts Item = []" "events Item = []" "globalScopes Item = []"
  "timezone Item = ''UTC''" "relationMethods Item = []" "getTableName Item = ''items''"
  by (simp_all add: Item_def Model_base_def getTableName_def)

lemma Order_fields [simp]:
  "className Order = ''Order''" "static_table Order = Some ''orders''" "primaryKey Order = ''id''"
  "\<not> softDeletes Order" "casts Order = []" "events Order = []" "globalScopes Order = []"
  "timezone Order = ''UTC''" "relationMethods Order = [(''items'', items_relation)]"
  "getTableName Order = ''orders''"
  by (simp_all add: Order_def Model_base_def getTableName_def hasMany_def or_default_def
      items_relation_def)

lemma items_relation_fields [simp]:
  "kind items_relation = HasMany" "related items_relation = RelatedName ''Item''"
  "foreignKey items_relation = ''order_id''" "localKey items_relation = ''id''"
  by (simp_all add: items_relation_def)

definition shop_world :: world where
  "shop_world = empty_world\<lparr>
      tables := [(''orders'', [[(''id'', JNum 1)], [(''id'', JNum 2)]]),
                 (''items'', [[(''id'', JNum 10), (''order_id'', JNum 1)],
                              [(''id'', JNum 11), (''order_id'', JNum 1)],
                              [(''id'', JNum 12), (''order_id'', JNum 2)]])],
      registry := [(''Order'', Order), (''Item'', Item)] \<rparr>"

lemma shop_world_fields [simp]:
  "tables shop_world = [(''orders'', [[(''id'', JNum 1)], [(''id'', JNum 2)]]),
                 (''items'', [[(''id'', JNum 10), (''order_id'', JNum 1)],
                              [(''id'', JNum 11), (''order_id'', JNum 1)],
                              [(''id'', JNum 12), (''order_id'', JNum 2)]])]"
  "log shop_world = []" "failing shop_world = (\<lambda>c. False)" "fired shop_world = []"
  "registry shop_world = [(''Order'', Order), (''Item'', Item)]" "sys shop_world = example_platform"
  by (simp_all add: shop_world_def)

lemma show_int_examples [simp]:
  "show_int 1 = ''1''" "show_int 2 = ''2''" "show_int 10 = ''10''" "show_int 11 = ''11''"
  "show_int 12 = ''12''"
  by (simp_all add: show_int_def digits.simps)

definition order1 :: entity where "order1 = Entity (persisted [(''id'', JNum 1)]) []"
definition order2 :: entity where "order2 = Entity (persisted [(''id'', JNum 2)]) []"
definition item10 :: entity where "item10 = Entity (persisted [(''id'', JNum 10), (''order_id'', JNum 1)]) []"
definition item11 :: entity where "item11 = Entity (persisted [(''id'', JNum 11), (''order_id'', JNum 1)]) []"
definition item12 :: entity where "item12 = Entity (persisted [(''id'', JNum 12), (''order_id'', JNum 2)]) []"

lemma setAttribute_plain:
  "casts C = [] \<Longrightarrow> p_deferred m \<noteq> None \<Longrightarrow>
     Model_setAttribute C w k v m = m\<lparr> attributes := AList.update k v (attributes m) \<rparr>"
  by (auto simp: Model_setAttribute_def)

lemma assign_plain:
  "casts C = [] \<Longrightarrow> p_deferred m \<noteq> None \<Longrightarrow>
     assign C w r m = m\<lparr> attributes := fold (\<lambda>(k, v). AList.update k v) r (attributes m) \<rparr>"
proof (induction r arbitrary: m)
  case Nil
  show ?case by simp
next
  case (Cons p r)
  have "assign C w (p # r) m = assign C w r (m\<lparr> attributes := AList.update (fst p) (snd p) (attributes m) \<rparr>)"
    using Cons.prems by (simp add: split_def setAttribute_plain)
  also have "\<dots> = m\<lparr> attributes := fold (\<lambda>(k, v). AList.update k v) (p # r) (attributes m) \<rparr>"
    using Cons.prems by (subst Cons.IH) (simp_all add: split_def)
  finally show ?case .
qed

lemma fold_update_fresh:
  "distinct (map fst al @ map fst r) \<Longrightarrow> fold (\<lambda>(k, v). AList.update k v) r al = al @ r"
proof (induction r arbitrary: al)
  case Nil
  show ?case by simp
next
  case (Cons p r)
  have u: "AList.update (fst p) (snd p) al = al @ [p]"
    using Cons.prems by (induction al) auto
  show ?case
    using Cons.prems Cons.IH [of "al @ [p]"] by (simp add: split_def u)
qed

text \<open>Without casts, a row with distinct columns is hydrated into an entity whose
  attributes are the row.\<close>

lemma hydrate_plain:
  "casts C = [] \<Longrightarrow> distinct (map fst r) \<Longrightarrow> hydrate C w r = Entity (persisted r) []"
proof (cases "r = []")
  case True
  then show ?thesis
    by (simp add: hydrate_def new_Model_def Model_initialize_def persisted_def)
next
  case False
  assume c: "casts C = []" and d: "distinct (map fst r)"
  have "assign C w r ((new_Model r)\<lparr> exists := True \<rparr>) =
      (new_Model r)\<lparr> exists := True, attributes := r \<rparr>"
    using False fold_update_fresh [of "[]" r] d
    by (subst assign_plain [OF c]) (simp_all add: new_Model_def)
  then show ?thesis
    using False
    by (simp add: hydrate_def Model_initialize_def persisted_def syncOriginal_def new_Model_def)
qed

definition items_query :: knex where
  "items_query = \<lparr> from_table = ''items'', wheres = [WhereIn ''order_id'' [JNum 1, JNum 2]] \<rparr>"

definition orders_builder :: builder where
  "orders_builder = QueryBuilder_with [''items''] (Model_query Order)"

lemma orders_builder_fields [simp]:
  "query orders_builder = \<lparr> from_table = ''orders'', wheres = [] \<rparr>"
  "modelClass orders_builder = Some Order" "eagerLoad orders_builder = [''items'']"
  "eagerLoadConstraints orders_builder = []"
  by (simp_all add: orders_builder_def QueryBuilder_with_def Model_query_def new_QueryBuilder_def)

lemma get_items_for_orders:
  "QueryBuilder_get
     ((new_QueryBuilder ''items'' (Some Item))\<lparr> query := items_query \<rparr>) (shop_world\<lparr> log := l \<rparr>) =
   (Returned [item10, item11, item12], shop_world\<lparr> log := l @ [Select items_query] \<rparr>)"
  by (subst QueryBuilder_get.simps)
    (simp add: engine_select_def softDeleteFilter_def new_QueryBuilder_def issue_def rows_of_def
      matches_def column_def hydrate_plain item10_def item11_def item12_def items_query_def)

lemma relationQuery_orders:
  "relationQuery orders_builder Order w ''items'' items_relation Item [order1, order2] =
     (new_QueryBuilder ''items'' (Some Item))\<lparr> query := items_query \<rparr>"
  by (simp add: relationQuery_def localValues_def Model_getAttribute_def property_def
      order1_def order2_def persisted_def QueryBuilder_whereIn_def add_where_def
      new_QueryBuilder_def nested_segments_def items_query_def)

lemma group_related_items:
  "group_related Item w [item10, item11, item12] =
     [(''10'', [item10]), (''11'', [item11]), (''12'', [item12])]"
  by (simp add: group_related_def push_group_def Model_getAttribute_def property_def ToString_def
      item10_def item11_def item12_def persisted_def)

lemma loadRelation_orders:
  "loadRelation orders_builder [order1, order2] ''items'' (shop_world\<lparr> log := l \<rparr>) =
     (Returned [Entity (persisted [(''id'', JNum 1)]) [(''items'', RMany [])],
                Entity (persisted [(''id'', JNum 2)]) [(''items'', RMany [])]],
      shop_world\<lparr> log := l @ [Select items_query] \<rparr>)"
proof -
  have lv: "localValues Order (shop_world\<lparr> log := l \<rparr>) items_relation [order1, order2] = [JNum 1, JNum 2]"
    by (simp add: localValues_def Model_getAttribute_def property_def order1_def order2_def persisted_def)
  have rc: "getRelatedClass (shop_world\<lparr> log := l \<rparr>) items_relation = Inr Item"
    by (simp add: getRelatedClass_def resolveRelatedModel_def)
  have as: "assign_related Order w ''items'' items_relation
               [(''10'', [item10]), (''11'', [item11]), (''12'', [item12])] order1 =
             Entity (persisted [(''id'', JNum 1)]) [(''items'', RMany [])]"
           "assign_related Order w ''items'' items_relation
               [(''10'', [item10]), (''11'', [item11]), (''12'', [item12])] order2 =
             Entity (persisted [(''id'', JNum 2)]) [(''items'', RMany [])]" for w
    by (simp_all add: assign_related_def Model_getAttribute_def property_def ToString_def
        order1_def order2_def persisted_def Let_def)
  show ?thesis
    by (subst loadRelation.simps)
      (simp add: relation_segment_def lv rc relationQuery_orders get_items_for_orders
        group_related_items as)
qed

text \<open>The grouping step as QueryBuilder.ts writes it: the related models are keyed by
  their foreign key (\<^verbatim>\<open>relatedModel.getAttribute(foreignKey)\<close>).\<close>

definition group_by_foreignKey :: "model_class \<Rightarrow> world \<Rightarrow> string \<Rightarrow> entity list \<Rightarrow> (string \<times> entity list) list" where
  "group_by_foreignKey relatedClass w fk relatedModels =
     fold (\<lambda>e. push_group (ToString w (Model_getAttribute relatedClass w (state e) fk)) e)
       relatedModels []"

lemma grouping_by_foreignKey_matches_orders:
  "map (assign_related Order shop_world ''items'' items_relation
          (group_by_foreignKey Item shop_world ''order_id'' [item10, item11, item12])) [order1, order2] =
     [Entity (persisted [(''id'', JNum 1)]) [(''items'', RMany [item10, item11])],
      Entity (persisted [(''id'', JNum 2)]) [(''items'', RMany [item12])]]"
  by (simp add: group_by_foreignKey_def push_group_def assign_related_def Model_getAttribute_def
      property_def ToString_def order1_def order2_def item10_def item11_def item12_def persisted_def
      Let_def)

section \<open>Claim C1: eager loading of a HasMany relation\<close>

text \<open>
  Claim C1 on the scenario of the specification: orders 1 and 2, items 10 and 11 of
  order 1, item 12 of order 2. \<^verbatim>\<open>Order.with('items').get()\<close> sends the query on
  \<open>orders\<close> and one supplemental query, \<open>order_id IN (1, 2)\<close>, which returns the three
  items. \<^verbatim>\<open>loadRelation\<close> then groups them by their own primary key (\<open>10\<close>, \<open>11\<close>,
  \<open>12\<close>) and looks each order up by its local key (\<open>1\<close>, \<open>2\<close>): both orders receive
  the empty list, where the claim gives order 1 two items and order 2 one.
\<close>

theorem eager_load_hasMany_scenario:
  "QueryBuilder_get orders_builder shop_world =
     (Returned [Entity (persisted [(''id'', JNum 1)]) [(''items'', RMany [])],
                Entity (persisted [(''id'', JNum 2)]) [(''items'', RMany [])]],
      shop_world\<lparr> log := [Select \<lparr> from_table = ''orders'', wheres = [] \<rparr>,
                              Select \<lparr> from_table = ''items'',
                                       wheres = [WhereIn ''order_id'' [JNum 1, JNum 2]] \<rparr>] \<rparr>)"
proof -
  have sel: "engine_select \<lparr> from_table = ''orders'', wheres = [] \<rparr> shop_world =
      (Returned [[(''id'', JNum 1)], [(''id'', JNum 2)]],
       shop_world\<lparr> log := [Select \<lparr> from_table = ''orders'', wheres = [] \<rparr>] \<rparr>)"
    by (simp add: engine_select_def issue_def rows_of_def matches_def)
  have hyd: "hydrate Order w [(''id'', JNum 1)] = order1" "hydrate Order w [(''id'', JNum 2)] = order2" for w
    by (simp_all add: hydrate_plain order1_def order2_def)
  show ?thesis
    by (subst QueryBuilder_get.simps)
      (simp add: softDeleteFilter_def sel hyd loadRelations.simps loadRelations_each.simps
        loadRelation_orders items_query_def)
qed


section \<open>Claim C8: eager loading when no owner has a local key value\<close>

definition keyless_order :: entity where
  "keyless_order = Entity (persisted [(''id'', JNull), (''note'', JStr ''draft'')]) []"

text \<open>
  Claim C8, as stated, fails in its second half: when every owner's key is null,
  \<^verbatim>\<open>loadRelation\<close> returns before the assignment loop. No query is sent, but the owners
  receive nothing: the relation stays absent from \<open>relations\<close> (not loaded) instead of
  being set to an empty collection.
\<close>

theorem keyless_owners_counterexample:
  "Model_getAttribute Order shop_world (state keyless_order) (localKey items_relation) = JNull \<and>
   loadRelation orders_builder [keyless_order] ''items'' shop_world = (Returned [keyless_order], shop_world) \<and>
   map_of (relations keyless_order) ''items'' = None \<and>
   map_of (relations keyless_order) ''items'' \<noteq> Some (RMany [])"
  by (subst loadRelation.simps)
    (simp add: relation_segment_def localValues_def Model_getAttribute_def property_def
      keyless_order_def persisted_def)

text \<open>
  Claim C8, amended. When the value that \<^verbatim>\<open>getAttribute(localKey)\<close> gives is falsy for
  every owner (null, absent, \<open>0\<close>, the empty string), \<^verbatim>\<open>loadRelation\<close> sends no query
  and returns the owners as they were: no entry is added to their \<open>relations\<close>. The
  key tested is the relation's \<open>localKey\<close> for every kind of relation.
\<close>

theorem no_local_keys_no_query:
  assumes "modelClass b = Some C"
    and "map_of (relationMethods C) (relation_segment relationName) = Some rel"
    and "\<forall>m\<in>set models. \<not> truthy (Model_getAttribute C w (state m) (localKey rel))"
  shows "loadRelation b models relationName w = (Returned models, w)"
proof -
  have "localValues C w rel models = []"
    using assms(3) by (simp add: localValues_def filter_empty_conv)
  then show ?thesis
    using assms(1,2) by (subst loadRelation.simps) simp
qed

theorem no_local_keys_no_query_witness:
  "modelClass orders_builder = Some Order \<and>
   map_of (relationMethods Order) (relation_segment ''items'') = Some items_relation \<and>
   \<not> truthy (Model_getAttribute Order shop_world (state keyless_order) (localKey items_relation)) \<and>
   loadRelation orders_builder [keyless_order] ''items'' shop_world = (Returned [keyless_order], shop_world)"
proof -
  have r: "map_of (relationMethods Order) (relation_segment ''items'') = Some items_relation"
    by (simp add: relation_segment_def)
  have k: "\<forall>m\<in>set [keyless_order].
      \<not> truthy (Model_getAttribute Order shop_world (state m) (localKey items_relation))"
    by (simp add: Model_getAttribute_def property_def keyless_order_def persisted_def)
  show ?thesis
    using no_local_keys_no_query [of orders_builder Order "''items''" items_relation "[keyless_order]" shop_world]
      r k
    by simp
qed


text \<open>For \<^verbatim>\<open>BelongsTo\<close> the key that links an owner is its foreign key, but the
  short-circuit still tests \<open>localKey\<close> (the owner key): a line item with no order sends
  a query with an empty \<open>IN\<close> list and receives \<^verbatim>\<open>null\<close>.\<close>

definition belongsTo :: "model_class \<Rightarrow> string \<Rightarrow> string \<Rightarrow> string option \<Rightarrow> relation" where
  "belongsTo C relatedName fk ok = \<lparr> kind = BelongsTo, related = RelatedName relatedName,
      foreignKey = fk, localKey = or_default ok (primaryKey C) \<rparr>"

definition LineItem :: model_class where
  "LineItem = Item\<lparr> className := ''LineItem'',
      relationMethods := [(''order'', belongsTo Item ''Order'' ''order_id'' None)] \<rparr>"

definition loose_item :: entity where
  "loose_item = Entity (persisted [(''id'', JNum 13), (''order_id'', JNull)]) []"

lemma belongsTo_null_foreign_key_still_queries:
  "loadRelation (QueryBuilder_with [''order''] (Model_query LineItem)) [loose_item] ''order'' shop_world =
     (Returned [Entity (persisted [(''id'', JNum 13), (''order_id'', JNull)]) [(''order'', RNull)]],
      shop_world\<lparr> log := [Select \<lparr> from_table = ''orders'', wheres = [WhereIn ''id'' []] \<rparr>] \<rparr>)"
proof -
  let ?rel = "\<lparr> kind = BelongsTo, related = RelatedName ''Order'', foreignKey = ''order_id'', localKey = ''id'' \<rparr>"
  let ?b = "QueryBuilder_with [''order''] (Model_query LineItem)"
  have c: "casts LineItem = []" "relationMethods LineItem = [(''order'', ?rel)]" "primaryKey LineItem = ''id''"
    by (simp_all add: LineItem_def belongsTo_def or_default_def)
  have b: "modelClass ?b = Some LineItem" "eagerLoadConstraints ?b = []"
    by (simp_all add: QueryBuilder_with_def Model_query_def new_QueryBuilder_def)
  have lv: "localValues LineItem shop_world ?rel [loose_item] = [JNum 13]"
    by (simp add: localValues_def Model_getAttribute_def property_def loose_item_def persisted_def c)
  have rc: "getRelatedClass shop_world ?rel = Inr Order"
    by (simp add: getRelatedClass_def resolveRelatedModel_def)
  have rq: "relationQuery ?b LineItem shop_world ''order'' ?rel Order [loose_item] =
      (new_QueryBuilder ''orders'' (Some Order))\<lparr> query := \<lparr> from_table = ''orders'', wheres = [WhereIn ''id'' []] \<rparr> \<rparr>"
    by (simp add: relationQuery_def foreignValues_def Model_getAttribute_def property_def b c
        loose_item_def persisted_def QueryBuilder_whereIn_def add_where_def new_QueryBuilder_def
        nested_segments_def)
  have g: "QueryBuilder_get ((new_QueryBuilder ''orders'' (Some Order))\<lparr> query := \<lparr> from_table = ''orders'', wheres = [WhereIn ''id'' []] \<rparr> \<rparr>) shop_world =
      (Returned [], shop_world\<lparr> log := [Select \<lparr> from_table = ''orders'', wheres = [WhereIn ''id'' []] \<rparr>] \<rparr>)"
    by (subst QueryBuilder_get.simps)
      (simp add: engine_select_def softDeleteFilter_def new_QueryBuilder_def issue_def rows_of_def
        matches_def column_def)
  have as: "assign_related LineItem w ''order'' ?rel [] loose_item =
      Entity (persisted [(''id'', JNum 13), (''order_id'', JNull)]) [(''order'', RNull)]" for w
    by (simp add: assign_related_def Let_def loose_item_def)
  show ?thesis
    by (subst loadRelation.simps)
      (simp add: relation_segment_def b c lv rc rq g group_related_def as)
qed

section \<open>Soft deletes\<close>

subsection \<open>What an update writes\<close>

lemma map_of_merge_row:
  "map_of (merge_row (map (\<lambda>c. (c, f c)) ks) r) c = (if c \<in> set ks then Some (f c) else map_of r c)"
proof (induction ks arbitrary: r)
  case Nil
  show ?case by (simp add: merge_row_def)
next
  case (Cons x xs)
  have "merge_row (map (\<lambda>c. (c, f c)) (x # xs)) r = merge_row (map (\<lambda>c. (c, f c)) xs) (AList.update x (f x) r)"
    by (simp add: merge_row_def)
  then show ?case
    by (simp add: Cons.IH update_conv')
qed

lemma column_merge_row:
  "column (merge_row (map (\<lambda>c. (c, f c)) ks) r) c =
     (if c \<in> set ks then (if f c = JUndefined then JNull else f c) else column r c)"
  by (auto simp: column_def map_of_merge_row split: jsval.splits)

lemma updateData_map:
  "updateData m = map (\<lambda>c. (c, property (attributes m) c)) (filter (\<lambda>c. c \<noteq> ''created_at'') (p_dirty m))"
  by (simp add: updateData_def getDirty_def AList.delete_eq filter_map comp_def eq_commute)

subsection \<open>Handlers that stay out of the way\<close>

text \<open>\<open>unobtrusive C\<close>: no handler of the class returns \<^verbatim>\<open>false\<close>, and none assigns the
  primary key or \<^verbatim>\<open>deleted_at\<close>.\<close>

definition unobtrusive :: "model_class \<Rightarrow> bool" where
  "unobtrusive C = (\<forall>evt. \<forall>h\<in>set (handlers_of C evt). \<forall>x.
      fst (h x) \<noteq> JBool False \<and>
      (\<forall>kv\<in>set (snd (h x)). fst kv \<noteq> primaryKey C \<and> fst kv \<noteq> ''deleted_at''))"

lemma setAttribute_property_other:
  "k \<noteq> c \<Longrightarrow> property (attributes (Model_setAttribute C w k v m)) c = property (attributes m) c"
  by (simp add: property_def setAttribute_other)

lemma setAttribute_dirty_mono: "set (p_dirty m) \<subseteq> set (p_dirty (Model_setAttribute C w k v m))"
  by (auto simp: setAttribute_dirty)

lemma assign_keeps:
  "\<forall>kv\<in>set kvs. fst kv \<noteq> c \<Longrightarrow> property (attributes (assign C w kvs m)) c = property (attributes m) c"
  by (induction kvs arbitrary: m) (simp_all add: split_def setAttribute_property_other)

lemma assign_dirty_mono: "set (p_dirty m) \<subseteq> set (p_dirty (assign C w kvs m))"
proof (induction kvs arbitrary: m)
  case Nil
  show ?case by simp
next
  case (Cons kv kvs)
  have "set (p_dirty m) \<subseteq> set (p_dirty (Model_setAttribute C w (fst kv) (snd kv) m))"
    by (rule setAttribute_dirty_mono)
  also have "\<dots> \<subseteq> set (p_dirty (assign C w kvs (Model_setAttribute C w (fst kv) (snd kv) m)))"
    by (rule Cons.IH)
  finally show ?case
    by (simp add: split_def)
qed

lemma run_handlers_keeps:
  assumes "\<forall>h\<in>set hs. \<forall>x. fst (h x) \<noteq> JBool False \<and>
             (\<forall>kv\<in>set (snd (h x)). fst kv \<noteq> pk \<and> fst kv \<noteq> ''deleted_at'')"
    and "run_handlers C evt hs m w = (r, m', w')"
  shows "r \<and> property (attributes m') pk = property (attributes m) pk \<and>
         property (attributes m') ''deleted_at'' = property (attributes m) ''deleted_at'' \<and>
         set (p_dirty m) \<subseteq> set (p_dirty m')"
  using assms
proof (induction hs arbitrary: m w)
  case Nil
  then show ?case by simp
next
  case (Cons h hs)
  let ?m1 = "assign C w (snd (h m)) m"
  have h: "fst (h m) \<noteq> JBool False" "\<forall>kv\<in>set (snd (h m)). fst kv \<noteq> pk"
    "\<forall>kv\<in>set (snd (h m)). fst kv \<noteq> ''deleted_at''"
    using Cons.prems(1) by auto
  have rest: "run_handlers C evt hs ?m1 (w\<lparr> fired := fired w @ [evt] \<rparr>) = (r, m', w')"
    using Cons.prems(2) h(1) by simp
  have "\<forall>h\<in>set hs. \<forall>x. fst (h x) \<noteq> JBool False \<and>
             (\<forall>kv\<in>set (snd (h x)). fst kv \<noteq> pk \<and> fst kv \<noteq> ''deleted_at'')"
    using Cons.prems(1) by simp
  from Cons.IH [OF this rest] show ?case
    using assign_keeps [OF h(2)] assign_keeps [OF h(3)] assign_dirty_mono [of m C w "snd (h m)"]
    by auto
qed

lemma fireEvent_keeps:
  assumes "unobtrusive C" and "fireEvent C evt m w = (r, m', w')"
  shows "r \<and> getKey C m' = getKey C m \<and>
         property (attributes m') ''deleted_at'' = property (attributes m) ''deleted_at'' \<and>
         set (p_dirty m) \<subseteq> set (p_dirty m')"
proof -
  have "\<forall>h\<in>set (handlers_of C evt). \<forall>x. fst (h x) \<noteq> JBool False \<and>
           (\<forall>kv\<in>set (snd (h x)). fst kv \<noteq> primaryKey C \<and> fst kv \<noteq> ''deleted_at'')"
    using assms(1) unfolding unobtrusive_def by blast
  from run_handlers_keeps [OF this assms(2) [unfolded fireEvent_def]] show ?thesis
    by (simp add: getKey_def)
qed

lemma after_persist_keeps:
  assumes "unobtrusive C" and "after_persist C evt m w = (r, m', w')"
  shows "getKey C m' = getKey C m \<and>
         property (attributes m') ''deleted_at'' = property (attributes m) ''deleted_at''"
proof -
  obtain r1 m1 w1 where e1: "fireEvent C evt m w = (r1, m1, w1)"
    by (metis prod_cases3)
  obtain r2 m2 w2 where e2: "fireEvent C ''saved'' m1 w1 = (r2, m2, w2)"
    by (metis prod_cases3)
  have "m' = syncOriginal m2"
    using assms(2) e1 e2 by (simp add: after_persist_def)
  then show ?thesis
    using fireEvent_keeps [OF assms(1) e1] fireEvent_keeps [OF assms(1) e2]
    by (simp add: syncOriginal_def getKey_def)
qed


lemma rows_of_updated [simp]:
  "rows_of (w\<lparr> tables := AList.update t rs (tables w) \<rparr>) t = rs"
  by (simp add: rows_of_def update_conv')

lemma rows_of_quiet: "quiet w w' \<Longrightarrow> rows_of w' t = rows_of w t"
  by (auto simp: quiet_def rows_of_def)

lemma rows_of_issue [simp]: "rows_of (issue c w) t = rows_of w t"
  by (simp add: rows_of_def issue_def)

subsection \<open>Saving a change of \<^verbatim>\<open>deleted_at\<close>\<close>

text \<open>An existing entity with key \<open>k\<close> whose \<^verbatim>\<open>deleted_at\<close> is dirty with value \<open>v\<close>: the
  save writes \<open>v\<close> into every row with that key, and keeps such a row if there was one.\<close>

lemma save_pushes_deleted_at:
  assumes un: "unobtrusive C" and sc: "globalScopes C = []" and up: "failing w = (\<lambda>c. False)"
    and pk: "primaryKey C \<noteq> ''deleted_at''" "primaryKey C \<noteq> ''updated_at''"
    and m: "exists m" "p_deferred m = None" "''deleted_at'' \<in> set (p_dirty m)"
    and key: "getKey C m = k" "k \<noteq> JNull" "k \<noteq> JUndefined"
    and v: "property (attributes m) ''deleted_at'' = v"
  obtains m' w' where
    "Model_save C m w = (Returned True, m', w')"
    "failing w' = failing w" "sys w' = sys w"
    "exists m'" "p_deferred m' = None" "getKey C m' = k"
    "property (attributes m') ''deleted_at'' = v"
    "\<forall>r'\<in>set (rows_of w' (getTableName C)). column r' (primaryKey C) = k \<longrightarrow>
        column r' ''deleted_at'' = (if v = JUndefined then JNull else v)"
    "(\<exists>r\<in>set (rows_of w (getTableName C)). column r (primaryKey C) = k) \<Longrightarrow>
     (\<exists>r'\<in>set (rows_of w' (getTableName C)). column r' (primaryKey C) = k)"
proof -
  let ?t = "getTableName C"
  obtain r1 m1 w1 where e1: "fireEvent C ''updating'' m w = (r1, m1, w1)"
    by (metis prod_cases3)
  obtain r2 m2 w2 where e2: "fireEvent C ''saving'' m1 w1 = (r2, m2, w2)"
    by (metis prod_cases3)
  note k1 = fireEvent_keeps [OF un e1] and k2 = fireEvent_keeps [OF un e2]
  note p1 = fireEvent_props [OF e1] and p2 = fireEvent_props [OF e2]
  have q2: "quiet w w2"
    using p1 p2 by (blast intro: quiet_trans)
  let ?m3 = "stamp_update C w2 m2"
  let ?ks = "filter (\<lambda>c. c \<noteq> ''created_at'') (p_dirty ?m3)"
  let ?f = "property (attributes ?m3)"
  let ?d = "updateData ?m3"
  have m2: "exists m2" "p_deferred m2 = None" "getKey C m2 = k"
    "property (attributes m2) ''deleted_at'' = v" "''deleted_at'' \<in> set (p_dirty m2)"
    using k1 k2 p1 p2 m key v by auto
  have m3: "getKey C ?m3 = k" "?f ''deleted_at'' = v" "''deleted_at'' \<in> set ?ks"
    using m2 pk setAttribute_dirty_mono [of m2 C w2 "''updated_at''" "getCurrentTimestamp C w2"]
    by (auto simp: stamp_update_def getKey_def setAttribute_property_other)
  have d: "?d = map (\<lambda>c. (c, ?f c)) ?ks"
    by (rule updateData_map)
  have "?ks \<noteq> []"
  proof
    assume e: "?ks = []"
    have "''deleted_at'' \<in> set ?ks"
      by (rule m3(3))
    then show False
      unfolding e by simp
  qed
  then have dne: "?d \<noteq> []"
    unfolding d by simp
  let ?q = "\<lparr> from_table = ?t, wheres = [Where (primaryKey C) k] \<rparr>"
  let ?rows' = "map (\<lambda>r. if matches ?q r then merge_row ?d r else r) (rows_of w2 ?t)"
  let ?w3 = "issue (Update ?q ?d) (w2\<lparr> tables := AList.update ?t ?rows' (tables w2) \<rparr>)"
  have f2: "failing w2 = (\<lambda>c. False)"
    using quiet_fields [OF q2] up by simp
  have upd: "QueryBuilder_update (QueryBuilder_where (primaryKey C) (getKey C ?m3) (Model_query C)) ?d w2 =
      (Returned (length (filter (matches ?q) (rows_of w2 ?t))), ?w3)"
    by (simp add: QueryBuilder_update_def QueryBuilder_where_def add_where_def engine_update_def
        f2 sc m3(1))
  obtain r4 m' w' where e4: "after_persist C ''updated'' ?m3 ?w3 = (r4, m', w')"
    by (cases "after_persist C ''updated'' ?m3 ?w3") blast
  note p4 = after_persist_props [OF e4] and k4 = after_persist_keeps [OF un e4]
  have r12: "r1" "r2"
    using k1 k2 by simp_all
  have dirty: "isDirty m"
    using m(3) by (auto simp: isDirty_def)
  have "update_dirty C m2 w2 = (r4, m', w')"
    using dne unfolding update_dirty_def by (simp only: upd e4 if_True outcome.case prod.case not_False_eq_True)
  moreover have "Model_save C m w = update_dirty C m2 w2"
    using m(1,2) dirty r12 by (simp add: Model_save_def initialize_idem e1 e2)
  moreover have "r4 = Returned True"
    using p4 by simp
  ultimately have save: "Model_save C m w = (Returned True, m', w')"
    by simp
  have rows': "rows_of w' ?t = ?rows'"
    using rows_of_quiet [of ?w3 w' ?t] p4 by simp
  have rows2: "rows_of w2 ?t = rows_of w ?t"
    using q2 by (rule rows_of_quiet)
  have mt: "matches ?q r = (column r (primaryKey C) = k)" for r
    using key(2) by (auto simp: matches_def)
  have colv: "column (merge_row ?d r) ''deleted_at'' = (if v = JUndefined then JNull else v)" for r
    unfolding d using m3 by (simp add: column_merge_row)
  have colk: "column r (primaryKey C) = k \<Longrightarrow> column (merge_row ?d r) (primaryKey C) = k" for r
    unfolding d using m3(1) key(3) by (simp add: column_merge_row getKey_def)
  have frame: "failing w' = failing w" "sys w' = sys w"
    using quiet_fields [OF q2] quiet_fields [of ?w3 w'] p4 by (simp_all add: issue_def)
  have all: "\<forall>r'\<in>set (rows_of w' ?t). column r' (primaryKey C) = k \<longrightarrow>
        column r' ''deleted_at'' = (if v = JUndefined then JNull else v)"
    unfolding rows' using colv by (auto simp: mt)
  have some: "\<exists>r'\<in>set (rows_of w' ?t). column r' (primaryKey C) = k"
    if "\<exists>r\<in>set (rows_of w ?t). column r (primaryKey C) = k"
  proof -
    from that obtain r where r: "r \<in> set (rows_of w ?t)" "column r (primaryKey C) = k"
      by blast
    then have "merge_row ?d r \<in> set ?rows'"
      unfolding rows2 set_map by (intro image_eqI [where x = r]) (simp_all add: mt)
    then show ?thesis
      unfolding rows' using colk [OF r(2)] by blast
  qed
  show ?thesis
    by (rule that [OF save frame]) (use p4 k4 m3 m2 all some in \<open>simp_all add: stamp_update_fields\<close>)
qed

subsection \<open>What a query on a soft-deleting model returns\<close>

lemma hydrate_sys: "sys w' = sys w \<Longrightarrow> hydrate C w' = hydrate C w"
proof -
  assume s: "sys w' = sys w"
  have "\<And>k v x. Model_setAttribute C w' k v x = Model_setAttribute C w k v x"
    unfolding Model_setAttribute_def s ..
  then have "Model_setAttribute C w' = Model_setAttribute C w"
    by (intro ext)
  then show ?thesis
    by (intro ext) (simp add: hydrate_def Model_initialize_def split: option.split)
qed

lemma matches_single:
  "matches \<lparr> from_table = t, wheres = [p] \<rparr> = (\<lambda>r. holds r p)"
  "matches \<lparr> from_table = t, wheres = [] \<rparr> = (\<lambda>r. True)"
  by (intro ext, simp add: matches_def)+

lemma Model_query_flags [simp]:
  "p_includeTrashed (Model_query C) = False" "p_onlyTrashed (Model_query C) = False"
  by (simp_all add: Model_query_def new_QueryBuilder_def)

lemma get_soft_deleting:
  assumes "softDeletes C" and "globalScopes C = []" and "failing w = (\<lambda>c. False)"
  shows "fst (QueryBuilder_get (Model_query C) w) =
           Returned (map (hydrate C w)
             (filter (\<lambda>r. column r ''deleted_at'' = JNull) (rows_of w (getTableName C))))"
    and "fst (QueryBuilder_get (withTrashed (Model_query C)) w) =
           Returned (map (hydrate C w) (rows_of w (getTableName C)))"
    and "fst (QueryBuilder_get (onlyTrashed (Model_query C)) w) =
           Returned (map (hydrate C w)
             (filter (\<lambda>r. column r ''deleted_at'' \<noteq> JNull) (rows_of w (getTableName C))))"
proof -
  have h: "hydrate C (issue c w) = hydrate C w" for c
    by (rule hydrate_sys) (simp add: issue_def)
  show "fst (QueryBuilder_get (Model_query C) w) =
           Returned (map (hydrate C w)
             (filter (\<lambda>r. column r ''deleted_at'' = JNull) (rows_of w (getTableName C))))"
    using assms
    by (subst QueryBuilder_get.simps)
      (simp add: engine_select_def softDeleteFilter_def add_where_def matches_single h)
  show "fst (QueryBuilder_get (withTrashed (Model_query C)) w) =
           Returned (map (hydrate C w) (rows_of w (getTableName C)))"
    using assms
    by (subst QueryBuilder_get.simps)
      (simp add: engine_select_def softDeleteFilter_def add_where_def matches_single h withTrashed_def)
  show "fst (QueryBuilder_get (onlyTrashed (Model_query C)) w) =
           Returned (map (hydrate C w)
             (filter (\<lambda>r. column r ''deleted_at'' \<noteq> JNull) (rows_of w (getTableName C))))"
    using assms
    by (subst QueryBuilder_get.simps)
      (simp add: engine_select_def softDeleteFilter_def add_where_def matches_single h onlyTrashed_def)
qed

subsection \<open>\<^verbatim>\<open>delete\<close> and \<^verbatim>\<open>restore\<close> on a soft-deleting model\<close>

text \<open>The part that \<^verbatim>\<open>delete\<close> and \<^verbatim>\<open>restore\<close> share once the first hook has run: set
  \<^verbatim>\<open>deleted_at\<close>, save, fire the closing hook.\<close>

lemma set_deleted_at_and_save:
  assumes un: "unobtrusive C" and sc: "globalScopes C = []" and up: "failing w = (\<lambda>c. False)"
    and nc: "map_of (casts C) ''deleted_at'' = None"
    and pk: "primaryKey C \<noteq> ''deleted_at''" "primaryKey C \<noteq> ''updated_at''"
    and m: "exists m" "p_deferred m = None"
    and key: "getKey C m = k" "k \<noteq> JNull" "k \<noteq> JUndefined"
    and e1: "fireEvent C evt1 m w = (r1, m1, w1)"
  obtains m' w' where
    "(case Model_save C (Model_setAttribute C w1 ''deleted_at'' v m1) w1 of
        (Threw err, m2, w2) \<Rightarrow> (Threw err, m2, w2)
      | (Returned saved, m2, w2) \<Rightarrow>
          (case fireEvent C evt2 m2 w2 of (r3, m3, w3) \<Rightarrow> (Returned True, m3, w3))) =
     (Returned True, m', w')"
    "failing w' = failing w" "sys w' = sys w"
    "exists m'" "p_deferred m' = None" "getKey C m' = k"
    "property (attributes m') ''deleted_at'' = v"
    "\<forall>r'\<in>set (rows_of w' (getTableName C)). column r' (primaryKey C) = k \<longrightarrow>
        column r' ''deleted_at'' = (if v = JUndefined then JNull else v)"
    "(\<exists>r\<in>set (rows_of w (getTableName C)). column r (primaryKey C) = k) \<longrightarrow>
     (\<exists>r'\<in>set (rows_of w' (getTableName C)). column r' (primaryKey C) = k)"
proof -
  let ?t = "getTableName C"
  let ?m = "Model_setAttribute C w1 ''deleted_at'' v m1"
  note k1 = fireEvent_keeps [OF un e1] and p1 = fireEvent_props [OF e1]
  note q1 = quiet_fields [OF p1 [THEN conjunct1]]
  have m1: "exists m1" "p_deferred m1 = None" "getKey C m1 = k"
    using k1 p1 m key by simp_all
  have ms: "exists ?m" "p_deferred ?m = None" "''deleted_at'' \<in> set (p_dirty ?m)"
    "getKey C ?m = k" "property (attributes ?m) ''deleted_at'' = v"
    using m1 pk nc
    by (simp_all add: setAttribute_dirty getKey_def setAttribute_property_other)
      (simp add: Model_setAttribute_def property_def update_conv')
  have f1: "failing w1 = (\<lambda>c. False)"
    using q1 up by simp
  have r1: "rows_of w1 ?t = rows_of w ?t"
    using p1 by (simp add: rows_of_quiet)
  from save_pushes_deleted_at [OF un sc f1 pk ms(1,2,3,4) key(2,3) ms(5)]
  obtain m2 w2 where s:
    "Model_save C ?m w1 = (Returned True, m2, w2)"
    "failing w2 = failing w1" "sys w2 = sys w1"
    "exists m2" "p_deferred m2 = None" "getKey C m2 = k"
    "property (attributes m2) ''deleted_at'' = v"
    "\<forall>r'\<in>set (rows_of w2 ?t). column r' (primaryKey C) = k \<longrightarrow>
        column r' ''deleted_at'' = (if v = JUndefined then JNull else v)"
    "(\<exists>r\<in>set (rows_of w1 ?t). column r (primaryKey C) = k) \<Longrightarrow>
     (\<exists>r'\<in>set (rows_of w2 ?t). column r' (primaryKey C) = k)"
    by blast
  obtain r3 m3 w3 where e3: "fireEvent C evt2 m2 w2 = (r3, m3, w3)"
    by (cases "fireEvent C evt2 m2 w2") blast
  note k3 = fireEvent_keeps [OF un e3] and p3 = fireEvent_props [OF e3]
  note q3 = quiet_fields [OF p3 [THEN conjunct1]]
  have r3: "rows_of w3 ?t = rows_of w2 ?t"
    using p3 by (simp add: rows_of_quiet)
  show ?thesis
  proof (rule that [of m3 w3])
    show "(case Model_save C ?m w1 of
        (Threw err, m2, w2) \<Rightarrow> (Threw err, m2, w2)
      | (Returned saved, m2, w2) \<Rightarrow>
          (case fireEvent C evt2 m2 w2 of (r3, m3, w3) \<Rightarrow> (Returned True, m3, w3))) =
     (Returned True, m3, w3)"
      by (simp add: s(1) e3)
    show "failing w3 = failing w" "sys w3 = sys w"
      using q1 q3 s(2,3) by simp_all
    show "exists m3" "p_deferred m3 = None" "getKey C m3 = k"
      "property (attributes m3) ''deleted_at'' = v"
      using k3 p3 s(4,5,6,7) by simp_all
    show "\<forall>r'\<in>set (rows_of w3 ?t). column r' (primaryKey C) = k \<longrightarrow>
        column r' ''deleted_at'' = (if v = JUndefined then JNull else v)"
      unfolding r3 by (rule s(8))
    show "(\<exists>r\<in>set (rows_of w ?t). column r (primaryKey C) = k) \<longrightarrow>
        (\<exists>r'\<in>set (rows_of w3 ?t). column r' (primaryKey C) = k)"
      unfolding r3 using s(9) unfolding r1 by blast
  qed
qed

section \<open>Claim C5: visibility of a soft-deleted row\<close>



text \<open>A soft-deleting model with two rows; the entity of the first row is deleted and
  restored.\<close>

definition Post :: model_class where
  "Post = User\<lparr> className := ''Post'', static_table := Some ''posts'', softDeletes := True \<rparr>"

lemma Post_fields [simp]:
  "className Post = ''Post''" "static_table Post = Some ''posts''" "primaryKey Post = ''id''"
  "keyType Post = ''int''" "incrementing Post" "timestamps Post" "softDeletes Post"
  "casts Post = []" "events Post = []"
  "globalScopes Post = []" "timezone Post = ''UTC''" "relationMethods Post = []"
  by (simp_all add: Post_def)

definition posts_world :: world where
  "posts_world = empty_world\<lparr> tables :=
     [(''posts'', [[(''id'', JNum 1), (''title'', JStr ''T'')],
                   [(''id'', JNum 2), (''title'', JStr ''U'')]])] \<rparr>"

lemma posts_world_fields [simp]:
  "tables posts_world = [(''posts'', [[(''id'', JNum 1), (''title'', JStr ''T'')],
                                      [(''id'', JNum 2), (''title'', JStr ''U'')]])]"
  "log posts_world = []" "failing posts_world = (\<lambda>c. False)"
  "fired posts_world = []" "registry posts_world = []" "sys posts_world = example_platform"
  by (simp_all add: posts_world_def)

definition post1 :: model where
  "post1 = persisted [(''id'', JNum 1), (''title'', JStr ''T'')]"

definition trashed_world :: world where
  "trashed_world = posts_world\<lparr>
     tables := [(''posts'', [[(''id'', JNum 1), (''title'', JStr ''T''),
                              (''deleted_at'', JDate 1000), (''updated_at'', JDate 1000)],
                             [(''id'', JNum 2), (''title'', JStr ''U'')]])],
     log := [Update \<lparr> from_table = ''posts'', wheres = [Where ''id'' (JNum 1)] \<rparr>
               [(''deleted_at'', JDate 1000), (''updated_at'', JDate 1000)]] \<rparr>"

definition restored_world :: world where
  "restored_world = posts_world\<lparr>
     tables := [(''posts'', [[(''id'', JNum 1), (''title'', JStr ''T''),
                              (''deleted_at'', JNull), (''updated_at'', JDate 1000)],
                             [(''id'', JNum 2), (''title'', JStr ''U'')]])],
     log := [Update \<lparr> from_table = ''posts'', wheres = [Where ''id'' (JNum 1)] \<rparr>
               [(''deleted_at'', JDate 1000), (''updated_at'', JDate 1000)],
             Update \<lparr> from_table = ''posts'', wheres = [Where ''id'' (JNum 1)] \<rparr>
               [(''deleted_at'', JNull), (''updated_at'', JDate 1000)]] \<rparr>"

lemma delete_post1:
  "Model_delete Post post1 posts_world =
     (Returned True,
      persisted [(''id'', JNum 1), (''title'', JStr ''T''),
                 (''deleted_at'', JDate 1000), (''updated_at'', JDate 1000)],
      trashed_world)"
  by (simp add: Model_delete_def model_eval post1_def persisted_def trashed_world_def
      posts_world_def empty_world_def)

lemma restore_post1:
  "Model_restore Post
     (persisted [(''id'', JNum 1), (''title'', JStr ''T''),
                 (''deleted_at'', JDate 1000), (''updated_at'', JDate 1000)]) trashed_world =
     (Returned True,
      persisted [(''id'', JNum 1), (''title'', JStr ''T''),
                 (''deleted_at'', JNull), (''updated_at'', JDate 1000)],
      restored_world)"
  by (simp add: Model_restore_def Model_getAttribute_def model_eval persisted_def
      trashed_world_def restored_world_def posts_world_def empty_world_def)



text \<open>
  Claim C5, as stated, fails on a model with a handler that vetoes the save: \<^verbatim>\<open>delete()\<close>
  sets \<^verbatim>\<open>deleted_at\<close> and calls \<^verbatim>\<open>save()\<close>, the \<^verbatim>\<open>saving\<close> handler returns \<^verbatim>\<open>false\<close>,
  \<^verbatim>\<open>save()\<close> sends no update, and \<^verbatim>\<open>delete()\<close> returns true all the same. The row is still
  returned by the default \<^verbatim>\<open>get()\<close>.
\<close>

definition veto_saving :: handler where
  "veto_saving m = (JBool False, [])"

definition Frozen :: model_class where
  "Frozen = Post\<lparr> className := ''Frozen'', events := [(''saving'', [veto_saving])] \<rparr>"

lemma Frozen_fields [simp]:
  "className Frozen = ''Frozen''" "static_table Frozen = Some ''posts''" "primaryKey Frozen = ''id''"
  "keyType Frozen = ''int''" "incrementing Frozen" "timestamps Frozen" "softDeletes Frozen"
  "casts Frozen = []" "events Frozen = [(''saving'', [veto_saving])]"
  "globalScopes Frozen = []" "timezone Frozen = ''UTC''" "relationMethods Frozen = []"
  by (simp_all add: Frozen_def)

definition vetoed_world :: world where
  "vetoed_world = posts_world\<lparr> fired := [''saving''] \<rparr>"

lemma delete_frozen_post1:
  "Model_delete Frozen post1 posts_world =
     (Returned True,
      \<lparr> attributes = [(''id'', JNum 1), (''title'', JStr ''T''), (''deleted_at'', JDate 1000)],
        original = [(''id'', JNum 1), (''title'', JStr ''T'')],
        exists = True, wasRecentlyCreated = False, p_dirty = [''deleted_at''], p_deferred = None \<rparr>,
      vetoed_world)"
  by (simp add: Model_delete_def model_eval veto_saving_def post1_def persisted_def vetoed_world_def)


section \<open>CustomCasts.ts\<close>

subsection \<open>JavaScript numbers\<close>

text \<open>
  The casts compute with JavaScript numbers, which are binary64 floating-point values. A
  finite one is kept as the rational it denotes; \<^verbatim>\<open>NaN\<close> is a value of its own. The exponent
  range is taken as unbounded: there is no overflow to \<^verbatim>\<open>Infinity\<close> and no subnormal
  range, which is binary64 on the magnitudes between \<open>2 powi -1022\<close> and \<open>2 powi 1024\<close>.
\<close>

datatype number = Fin rat | NaN

type_synonym cval = "number jsval"

text \<open>Round to the nearest integer, ties to even.\<close>

definition rne :: "rat \<Rightarrow> int" where
  "rne y = (let f = \<lfloor>y\<rfloor>; d = y - of_int f in
            if d < 1 / 2 then f else if 1 / 2 < d then f + 1 else if even f then f else f + 1)"

text \<open>The binary exponent of a non-zero rational \<open>x\<close>: the \<open>e\<close> with
  \<open>2 powi e \<le> \<bar>x\<bar> < 2 powi (e + 1)\<close>.\<close>

definition exponent :: "rat \<Rightarrow> int" where
  "exponent x = (if 1 \<le> \<bar>x\<bar> then bitlen \<lfloor>\<bar>x\<bar>\<rfloor> - 1 else - bitlen (\<lceil>1 / \<bar>x\<bar>\<rceil> - 1))"

text \<open>The binary64 value nearest to \<open>x\<close>: 53 significant bits, ties to even.\<close>

definition fl :: "rat \<Rightarrow> rat" where
  "fl x = (if x = 0 then 0
           else of_int (rne (x / 2 powi (exponent x - 52))) * 2 powi (exponent x - 52))"

text \<open>\<^verbatim>\<open>x * 100\<close>, \<^verbatim>\<open>x / 100\<close> and \<^verbatim>\<open>Math.round(x)\<close> (the nearest integer, ties towards
  plus infinity) on numbers.\<close>

fun times100 :: "number \<Rightarrow> number" where
  "times100 (Fin x) = Fin (fl (x * 100))"
| "times100 NaN = NaN"

fun over100 :: "number \<Rightarrow> number" where
  "over100 (Fin x) = Fin (fl (x / 100))"
| "over100 NaN = NaN"

fun Math_round :: "number \<Rightarrow> number" where
  "Math_round (Fin x) = Fin (of_int \<lfloor>x + 1 / 2\<rfloor>)"
| "Math_round NaN = NaN"

subsection \<open>Coercions\<close>

text \<open>The built-ins the casts call and that work on text: \<^verbatim>\<open>String(v)\<close>, \<^verbatim>\<open>Number(s)\<close> and
  \<^verbatim>\<open>parseFloat(s)\<close> on a string, \<^verbatim>\<open>JSON.parse\<close> (\<open>None\<close> when it throws a
  \<^verbatim>\<open>SyntaxError\<close>) and \<^verbatim>\<open>JSON.stringify\<close>.\<close>

record builtins =
  String_of :: "cval \<Rightarrow> string"
  StringToNumber :: "string \<Rightarrow> number"
  parseFloat_string :: "string \<Rightarrow> number"
  parse_JSON :: "string \<Rightarrow> cval option"
  stringify_JSON :: "cval \<Rightarrow> string"

fun ToBoolean :: "cval \<Rightarrow> bool" where
  "ToBoolean JUndefined = False"
| "ToBoolean JNull = False"
| "ToBoolean (JBool b) = b"
| "ToBoolean (JNum (Fin x)) = (x \<noteq> 0)"
| "ToBoolean (JNum NaN) = False"
| "ToBoolean (JStr s) = (s \<noteq> [])"
| "ToBoolean (JDate t) = True"
| "ToBoolean (JArr xs) = True"
| "ToBoolean (JObj kvs) = True"

text \<open>\<^verbatim>\<open>ToNumber\<close>, as applied by \<^verbatim>\<open>value * 100\<close>.\<close>

fun ToNumber :: "builtins \<Rightarrow> cval \<Rightarrow> number" where
  "ToNumber B JUndefined = NaN"
| "ToNumber B JNull = Fin 0"
| "ToNumber B (JBool b) = Fin (if b then 1 else 0)"
| "ToNumber B (JNum n) = n"
| "ToNumber B (JStr s) = StringToNumber B s"
| "ToNumber B (JDate t) = Fin (of_int t)"
| "ToNumber B (JArr xs) = StringToNumber B (String_of B (JArr xs))"
| "ToNumber B (JObj kvs) = StringToNumber B (String_of B (JObj kvs))"

text \<open>\<^verbatim>\<open>parseFloat(value)\<close> parses \<^verbatim>\<open>String(value)\<close>; the text of a number parses back to that
  number.\<close>

fun parseFloat :: "builtins \<Rightarrow> cval \<Rightarrow> number" where
  "parseFloat B (JNum n) = n"
| "parseFloat B (JStr s) = parseFloat_string B s"
| "parseFloat B v = parseFloat_string B (String_of B v)"

subsection \<open>MoneyCast and JsonCast\<close>

definition MoneyCast_get :: "builtins \<Rightarrow> cval \<Rightarrow> cval" where
  "MoneyCast_get B v = (if ToBoolean v then JNum (over100 (parseFloat B v)) else JNull)"

definition MoneyCast_set :: "builtins \<Rightarrow> cval \<Rightarrow> cval" where
  "MoneyCast_set B v = (if ToBoolean v then JNum (Math_round (times100 (ToNumber B v))) else JNull)"

text \<open>\<^verbatim>\<open>JsonCast.get\<close> returns \<open>None\<close> when \<^verbatim>\<open>JSON.parse\<close> throws.\<close>

definition JsonCast_get :: "builtins \<Rightarrow> cval \<Rightarrow> cval option" where
  "JsonCast_get B v =
     (if \<not> ToBoolean v then Some JNull
      else case v of JStr s \<Rightarrow> parse_JSON B s | _ \<Rightarrow> Some v)"

definition JsonCast_set :: "builtins \<Rightarrow> cval \<Rightarrow> cval" where
  "JsonCast_set B v =
     (if v = JNull \<or> v = JUndefined then JNull
      else case v of JStr s \<Rightarrow> v | _ \<Rightarrow> JStr (stringify_JSON B v))"

section \<open>Rounding error of a binary64 operation\<close>

lemma rne_error: "\<bar>of_int (rne y) - y\<bar> \<le> 1 / 2"
proof -
  have "of_int \<lfloor>y\<rfloor> \<le> y" "y < of_int \<lfloor>y\<rfloor> + 1"
    by linarith+
  then show ?thesis
    by (auto simp: rne_def Let_def)
qed

lemma exponent_le:
  assumes "x \<noteq> 0"
  shows "2 powi (exponent x) \<le> \<bar>x\<bar>"
proof (cases "1 \<le> \<bar>x\<bar>")
  case True
  let ?n = "\<lfloor>\<bar>x\<bar>\<rfloor>"
  have n: "0 < ?n"
    using True by linarith
  from bitlen_bounds [OF n] have "2 ^ nat (bitlen ?n - 1) \<le> ?n"
    by simp
  then have "(of_int (2 ^ nat (bitlen ?n - 1)) :: rat) \<le> of_int ?n"
    by (simp only: of_int_le_iff)
  then have "(2 :: rat) ^ nat (bitlen ?n - 1) \<le> of_int ?n"
    by simp
  also have "\<dots> \<le> \<bar>x\<bar>"
    by linarith
  finally have "(2 :: rat) ^ nat (bitlen ?n - 1) \<le> \<bar>x\<bar>" .
  moreover have "1 \<le> bitlen ?n"
    using n by (simp add: bitlen_ge_iff_power)
  ultimately show ?thesis
    using True by (simp add: exponent_def power_int_def)
next
  case False
  let ?y = "1 / \<bar>x\<bar>"
  let ?n = "\<lceil>?y\<rceil> - 1"
  have x: "0 < \<bar>x\<bar>" "\<bar>x\<bar> < 1"
    using assms False by simp_all
  then have y: "1 < ?y"
    by simp
  then have n: "0 < ?n"
    by linarith
  from bitlen_bounds [OF n] have "\<lceil>?y\<rceil> \<le> 2 ^ nat (bitlen ?n)"
    by simp
  then have "(of_int \<lceil>?y\<rceil> :: rat) \<le> of_int (2 ^ nat (bitlen ?n))"
    by (simp only: of_int_le_iff)
  then have "of_int \<lceil>?y\<rceil> \<le> (2 :: rat) ^ nat (bitlen ?n)"
    by simp
  moreover have "?y \<le> of_int \<lceil>?y\<rceil>"
    by linarith
  ultimately have "?y \<le> 2 ^ nat (bitlen ?n)"
    by linarith
  then have "1 / 2 ^ nat (bitlen ?n) \<le> \<bar>x\<bar>"
    using x(1) by (simp add: field_simps)
  moreover have "1 \<le> bitlen ?n"
    using n by (simp add: bitlen_ge_iff_power)
  ultimately show ?thesis
    using False by (simp add: exponent_def power_int_def field_simps)
qed

lemma fl_error: "\<bar>fl x - x\<bar> \<le> \<bar>x\<bar> / 2 ^ 53"
proof (cases "x = 0")
  case True
  then show ?thesis
    by (simp add: fl_def)
next
  case False
  define u :: rat where "u = 2 powi (exponent x - 52)"
  have u: "0 < u"
    by (simp add: u_def)
  have "fl x - x = u * (of_int (rne (x / u)) - x / u)"
    using False u by (simp add: fl_def u_def [symmetric] field_simps)
  then have "\<bar>fl x - x\<bar> = u * \<bar>of_int (rne (x / u)) - x / u\<bar>"
    using u by (simp add: abs_mult)
  also have "\<dots> \<le> u * (1 / 2)"
    using u rne_error [of "x / u"] by (intro mult_left_mono) simp_all
  also have "u * (1 / 2) = 2 powi (exponent x) / 2 ^ 53"
    by (simp add: u_def power_int_diff)
  also have "\<dots> \<le> \<bar>x\<bar> / 2 ^ 53"
    using exponent_le [OF False] by (simp add: divide_right_mono)
  finally show ?thesis .
qed


section \<open>Claim C6: the round trip through a cast\<close>

text \<open>An amount of \<open>c\<close> cents is the number nearest to \<open>c / 100\<close>, as the literal
  \<^verbatim>\<open>19.99\<close> is for \<open>c = 1999\<close>. \<^verbatim>\<open>MoneyCast.set\<close> recovers the cents of such an amount.\<close>

lemma cents_recovered:
  fixes c :: int
  assumes "\<bar>c\<bar> \<le> 2 ^ 50"
  shows "\<lfloor>fl (fl (of_int c / 100) * 100) + 1 / 2\<rfloor> = c"
proof -
  define x :: rat where "x = of_int c / 100"
  define y :: rat where "y = fl x * 100"
  define a :: rat where "a = \<bar>of_int c\<bar>"
  have a: "0 \<le> a" "a \<le> 2 ^ 50"
  proof -
    show "0 \<le> a"
      by (simp add: a_def)
    have "(of_int \<bar>c\<bar> :: rat) \<le> of_int (2 ^ 50)"
      using assms by (simp only: of_int_le_iff)
    then show "a \<le> 2 ^ 50"
      by (simp add: a_def)
  qed
  have "\<bar>fl x - x\<bar> \<le> \<bar>x\<bar> / 2 ^ 53"
    by (rule fl_error)
  then have "\<bar>fl x - x\<bar> * 100 \<le> a / 2 ^ 53"
    by (simp add: x_def a_def)
  moreover have "\<bar>y - of_int c\<bar> = \<bar>fl x - x\<bar> * 100"
  proof -
    have eq: "y - of_int c = (fl x - x) * 100"
      by (simp add: y_def x_def algebra_simps)
    show ?thesis
      unfolding eq abs_mult by simp
  qed
  ultimately have e1: "\<bar>y - of_int c\<bar> \<le> a / 2 ^ 53"
    by simp
  have "\<bar>y\<bar> \<le> \<bar>y - of_int c\<bar> + a"
    unfolding a_def by linarith
  then have y: "\<bar>y\<bar> \<le> 2 * a"
    using e1 a by (simp add: field_simps)
  have "\<bar>fl y - y\<bar> \<le> \<bar>y\<bar> / 2 ^ 53"
    by (rule fl_error)
  then have e2: "\<bar>fl y - y\<bar> \<le> 2 * a / 2 ^ 53"
    using y by (simp add: field_simps)
  have "\<bar>fl y - of_int c\<bar> \<le> \<bar>fl y - y\<bar> + \<bar>y - of_int c\<bar>"
    by linarith
  then have "\<bar>fl y - of_int c\<bar> \<le> 3 * a / 2 ^ 53"
    using e1 e2 by (simp add: field_simps)
  then have "\<bar>fl y - of_int c\<bar> \<le> 3 / 8"
    using a by (simp add: field_simps)
  then have "of_int c \<le> fl y + 1 / 2" "fl y + 1 / 2 < of_int c + 1"
    by linarith+
  then have "\<lfloor>fl y + 1 / 2\<rfloor> = c"
    by (intro floor_unique)
  then show ?thesis
    by (simp add: y_def x_def)
qed

lemma cents_nonzero:
  fixes c :: int
  assumes "c \<noteq> 0"
  shows "fl (of_int c / 100) \<noteq> 0"
proof
  define x :: rat where "x = of_int c / 100"
  assume "fl (of_int c / 100) = 0"
  then have "\<bar>x\<bar> \<le> \<bar>x\<bar> / 2 ^ 53"
    using fl_error [of x] by (simp add: x_def)
  moreover have "0 < \<bar>x\<bar>"
    using assms by (simp add: x_def)
  ultimately show False
    by (simp add: field_simps)
qed

lemma MoneyCast_round_trip:
  fixes c :: int
  assumes "c \<noteq> 0" and "\<bar>c\<bar> \<le> 2 ^ 50"
  shows "MoneyCast_set B (JNum (Fin (fl (of_int c / 100)))) = JNum (Fin (of_int c))"
    and "MoneyCast_get B (JNum (Fin (of_int c))) = JNum (Fin (fl (of_int c / 100)))"
  using assms cents_recovered [OF assms(2)] cents_nonzero [OF assms(1)]
  by (simp_all add: MoneyCast_set_def MoneyCast_get_def)

lemma JsonCast_round_trip:
  assumes "v \<noteq> JNull" and "v \<noteq> JUndefined" and "case v of JStr s \<Rightarrow> False | _ \<Rightarrow> True"
    and "stringify_JSON B v \<noteq> []" and "parse_JSON B (stringify_JSON B v) = Some v"
  shows "JsonCast_get B (JsonCast_set B v) = Some v"
  using assms by (cases v) (simp_all add: JsonCast_get_def JsonCast_set_def)

text \<open>The text \<^verbatim>\<open>{"a":1}\<close>, and built-ins that know this one text.\<close>

definition json_a1 :: string where
  "json_a1 = [CHR ''{'', CHR 0x22, CHR ''a'', CHR 0x22, CHR '':'', CHR ''1'', CHR ''}'']"

definition example_builtins :: builtins where
  "example_builtins = \<lparr> String_of = (\<lambda>v. ''[object Object]''), StringToNumber = (\<lambda>s. NaN),
      parseFloat_string = (\<lambda>s. NaN),
      parse_JSON = (\<lambda>s. if s = json_a1 then Some (JObj [(''a'', JNum (Fin 1))]) else None),
      stringify_JSON = (\<lambda>v. if v = JObj [(''a'', JNum (Fin 1))] then json_a1 else ''null'') \<rparr>"

lemma fl_twelve_and_half: "fl (25 / 2) = 25 / 2"
  by code_simp

lemma fl_thirteen_cents: "fl (13 / 100) \<noteq> 1 / 8"
proof
  assume "fl (13 / 100) = 1 / 8"
  then show False
    using fl_error [of "13 / 100"] by simp
qed



lemma example_builtins_json:
  "stringify_JSON example_builtins (JObj [(''a'', JNum (Fin 1))]) = json_a1"
  "parse_JSON example_builtins json_a1 = Some (JObj [(''a'', JNum (Fin 1))])"
  "json_a1 \<noteq> []"
  by (simp_all add: example_builtins_def json_a1_def)


end
